theory Spec2Isabelle
  imports Main
begin

section \<open>The command line front end: cmd/myclaw/main.go\<close>

subsection \<open>Configuration and formatting helpers\<close>

text \<open>
  The fields of \<open>config.Config\<close> that main.go reads: \<open>cfg.Provider.APIKey\<close>,
  \<open>cfg.Provider.Type\<close>, \<open>cfg.Agent.Workspace\<close>, \<open>cfg.Agent.Model\<close>, the three
  \<open>cfg.Channels.*.Enabled\<close> flags, \<open>cfg.Skills.Enabled\<close> and \<open>cfg.Skills.Dir\<close>.
  Go strings are byte strings, and so is \<open>string\<close>.
\<close>

record config =
  apiKey :: string
  providerType :: string
  workspace :: string
  modelName :: string
  telegramEnabled :: bool
  feishuEnabled :: bool
  wecomEnabled :: bool
  skillsEnabled :: bool
  skillsDir :: string

text \<open>
  \<open>config.LoadConfig()\<close> returns \<open>(*Config, error)\<close>; the package is not part of the
  sources at hand, so its result is an input of every command: \<open>Inl err\<close> is a nil
  configuration with an error, \<open>Inr cfg\<close> a configuration with a nil error.
\<close>

type_synonym loaded = "string + config"

definition nl :: string where
  "nl = [CHR 0x0A]"

text \<open>\<open>%v\<close> of a bool and \<open>%d\<close> of a non-negative int.\<close>

definition fmtBool :: "bool \<Rightarrow> string" where
  "fmtBool b = (if b then ''true'' else ''false'')"

fun fmtNat :: "nat \<Rightarrow> string" where
  "fmtNat n = (if n < 10 then [''0123456789'' ! n]
               else fmtNat (n div 10) @ [''0123456789'' ! (n mod 10)])"

definition providerDisplay :: "string \<Rightarrow> string" where
  "providerDisplay t = (if t = [] then ''anthropic (default)'' else t)"

text \<open>
  \<open>filepath.Join\<close> belongs to the Go library; it is the parameter \<open>join\<close> of every
  function that builds a path, applied to the list of its arguments.
\<close>

definition resolveSkillsDir :: "(string list \<Rightarrow> string) \<Rightarrow> config \<Rightarrow> string" where
  "resolveSkillsDir join cfg =
     (if skillsDir cfg \<noteq> [] then skillsDir cfg else join [workspace cfg, ''skills''])"

subsection \<open>runStatus\<close>

text \<open>
  The branch of runStatus that prints the API key (lines 334 to 341): a key of more than
  eight bytes is shown as its first four bytes, three dots and its last four bytes.
\<close>

definition apiKeyLine :: "string \<Rightarrow> string" where
  "apiKeyLine key =
     (if key \<noteq> [] \<and> length key > 8
      then ''API Key: '' @ (take 4 key @ ''...'' @ drop (length key - 4) key) @ nl
      else if key \<noteq> [] then ''API Key: set'' @ nl
      else ''API Key: not set'' @ nl)"

text \<open>
  The block that reports on the workspace (lines 347 to 357). \<open>statOk\<close> tells whether
  \<open>os.Stat\<close> of a path succeeds and \<open>readLongTerm\<close> is what the memory store of a
  workspace returns from \<open>ReadLongTerm\<close>.
\<close>

definition memoryLine :: "(string \<Rightarrow> bool) \<Rightarrow> (string \<Rightarrow> string) \<Rightarrow> config \<Rightarrow> string" where
  "memoryLine statOk readLongTerm cfg =
     (if \<not> statOk (workspace cfg)
      then ''Workspace: not found (run 'myclaw onboard')'' @ nl
      else (let lt = readLongTerm (workspace cfg) in
            if lt \<noteq> [] then ''Memory: '' @ fmtNat (length lt) @ '' bytes'' @ nl
            else ''Memory: empty'' @ nl))"

text \<open>
  runStatus always returns nil; the model returns what it writes to standard output.
\<close>

definition runStatus ::
  "(string list \<Rightarrow> string) \<Rightarrow> string \<Rightarrow> (string \<Rightarrow> bool) \<Rightarrow> (string \<Rightarrow> string) \<Rightarrow> loaded \<Rightarrow> string" where
  "runStatus join configPath statOk readLongTerm ld =
     (case ld of
        Inl err \<Rightarrow> ''Config: error ('' @ err @ '')'' @ nl
      | Inr cfg \<Rightarrow>
          ''Config: '' @ configPath @ nl
          @ ''Workspace: '' @ workspace cfg @ nl
          @ ''Model: '' @ modelName cfg @ nl
          @ ''Provider: '' @ providerDisplay (providerType cfg) @ nl
          @ apiKeyLine (apiKey cfg)
          @ ''Telegram: enabled='' @ fmtBool (telegramEnabled cfg) @ nl
          @ ''Feishu: enabled='' @ fmtBool (feishuEnabled cfg) @ nl
          @ ''WeCom: enabled='' @ fmtBool (wecomEnabled cfg) @ nl
          @ ''Skills: enabled='' @ fmtBool (skillsEnabled cfg)
              @ '' dir='' @ resolveSkillsDir join cfg @ nl
          @ memoryLine statOk readLongTerm cfg)"

subsection \<open>runGateway\<close>

text \<open>
  \<open>gateway.New\<close> and \<open>(*Gateway).Run\<close> are not part of the sources at hand: \<open>new\<close> maps
  a configuration to an error or a gateway, \<open>run\<close> maps a gateway to the error that its
  \<open>Run\<close> returns (\<open>None\<close> for nil). The outcome says whether the gateway was run at all.
\<close>

datatype 'gw gateway_outcome =
    Aborted string
  | Ran 'gw "string option"

definition apiKeyNotSet :: string where
  "apiKeyNotSet = ''API key not set. Run 'myclaw onboard' or set MYCLAW_API_KEY / ANTHROPIC_API_KEY''"

definition runGateway ::
  "(config \<Rightarrow> string + 'gw) \<Rightarrow> ('gw \<Rightarrow> string option) \<Rightarrow> loaded \<Rightarrow> 'gw gateway_outcome" where
  "runGateway new run ld =
     (case ld of
        Inl err \<Rightarrow> Aborted (''load config: '' @ err)
      | Inr cfg \<Rightarrow>
          if apiKey cfg = [] then Aborted apiKeyNotSet
          else (case new cfg of
                  Inl err \<Rightarrow> Aborted (''create gateway: '' @ err)
                | Inr gw \<Rightarrow> Ran gw (run gw)))"

subsection \<open>runAgentWithOptions\<close>

text \<open>
  A \<open>context.Context\<close>, as far as its deadline goes: the background context has none,
  \<open>WithTimeout\<close> and \<open>WithDeadline\<close> give one, \<open>WithCancel\<close> inherits its parent's.
\<close>

datatype go_context =
    Background
  | WithTimeout go_context nat
  | WithDeadline go_context nat
  | WithCancel go_context

fun bounded :: "go_context \<Rightarrow> bool" where
  "bounded Background = False"
| "bounded (WithTimeout c d) = True"
| "bounded (WithDeadline c t) = True"
| "bounded (WithCancel c) = bounded c"

record request =
  Prompt :: string
  SessionID :: string

text \<open>
  An \<open>*api.Response\<close>: \<open>None\<close> is a nil response, \<open>Some None\<close> a response whose
  \<open>Result\<close> is nil, \<open>Some (Some out)\<close> one whose \<open>Result.Output\<close> is \<open>out\<close>.
  A \<open>Runtime\<close> is a state \<open>'rt\<close> with the function \<open>run\<close> for its \<open>Run\<close> method,
  which returns an error (\<open>Inl\<close>) or a response and the next state of the runtime.
\<close>

type_synonym response = "string option option"

type_synonym 'rt run_method = "'rt \<Rightarrow> go_context \<Rightarrow> request \<Rightarrow> (string + response) \<times> 'rt"

text \<open>
  What a run of the agent command does: the calls of \<open>Run\<close> in order, each with the
  context it was given, the text written to standard output and to standard error, and
  whether the deferred \<open>Close\<close> has run.
\<close>

record 'rt agent_state =
  rt :: 'rt
  calls :: "(go_context \<times> request) list"
  out :: string
  errOut :: string
  closed :: bool

text \<open>
  DefaultRuntimeFactory: \<open>apiNew\<close> stands for \<open>api.New\<close> applied to the options built
  from the configuration, the system prompt and the skills.
\<close>

definition DefaultRuntimeFactory :: "(config \<Rightarrow> string + 'rt) \<Rightarrow> config \<Rightarrow> string + 'rt" where
  "DefaultRuntimeFactory apiNew cfg =
     (if apiKey cfg = [] then Inl apiKeyNotSet
      else (case apiNew cfg of
              Inl err \<Rightarrow> Inl (''create runtime: '' @ err)
            | Inr r \<Rightarrow> Inr r))"

text \<open>\<open>if resp != nil && resp.Result != nil { fmt.Fprintln(stdout, resp.Result.Output) }\<close>\<close>

definition printResponse :: "response \<Rightarrow> 'rt agent_state \<Rightarrow> 'rt agent_state" where
  "printResponse resp s =
     (case resp of
        Some (Some output) \<Rightarrow> s\<lparr>out := out s @ output @ nl\<rparr>
      | _ \<Rightarrow> s)"

text \<open>
  The REPL loop over the lines that the scanner yields; \<open>trim\<close> is \<open>strings.TrimSpace\<close>.
  When the lines are used up \<open>scanner.Scan()\<close> is false and the loop ends.
\<close>

fun repl :: "(string \<Rightarrow> string) \<Rightarrow> 'rt run_method \<Rightarrow> go_context \<Rightarrow> string list
    \<Rightarrow> 'rt agent_state \<Rightarrow> 'rt agent_state" where
  "repl trim run ctx [] s = s\<lparr>out := out s @ nl @ ''> ''\<rparr>"
| "repl trim run ctx (line # rest) s =
     (let s1 = s\<lparr>out := out s @ nl @ ''> ''\<rparr>;
          input = trim line
      in if input = [] then repl trim run ctx rest s1
         else if input = ''exit'' \<or> input = ''quit'' then s1
         else (let req = \<lparr>Prompt = input, SessionID = ''cli-repl''\<rparr>;
                   (res, r) = run (rt s1) ctx req;
                   s2 = s1\<lparr>rt := r, calls := calls s1 @ [(ctx, req)]\<rparr>
               in case res of
                    Inl err \<Rightarrow> repl trim run ctx rest (s2\<lparr>errOut := errOut s2 @ ''Error: '' @ err @ nl\<rparr>)
                  | Inr resp \<Rightarrow> repl trim run ctx rest (printResponse resp s2)))"

text \<open>
  runAgentWithOptions returns its error (\<open>None\<close> for nil) and, once a runtime exists,
  what the run did. \<open>factory\<close> is \<open>opts.RuntimeFactory\<close> (\<open>None\<close> for nil),
  \<open>messageFlag\<close> the value of the \<open>--message\<close> flag and \<open>lines\<close> the input lines.
\<close>

definition runAgentWithOptions ::
  "(config \<Rightarrow> string + 'rt) \<Rightarrow> 'rt run_method \<Rightarrow> (string \<Rightarrow> string) \<Rightarrow> string
    \<Rightarrow> (config \<Rightarrow> string + 'rt) option \<Rightarrow> string list \<Rightarrow> loaded
    \<Rightarrow> string option \<times> 'rt agent_state option" where
  "runAgentWithOptions apiNew run trim messageFlag factory lines ld =
     (case ld of
        Inl err \<Rightarrow> (Some (''load config: '' @ err), None)
      | Inr cfg \<Rightarrow>
          (case (case factory of None \<Rightarrow> DefaultRuntimeFactory apiNew | Some f \<Rightarrow> f) cfg of
             Inl err \<Rightarrow> (Some err, None)
           | Inr r0 \<Rightarrow>
               (let s0 = \<lparr>rt = r0, calls = [], out = [], errOut = [], closed = False\<rparr>;
                    ctx = Background
                in if messageFlag \<noteq> []
                   then (let req = \<lparr>Prompt = messageFlag, SessionID = ''cli''\<rparr>;
                             (res, r) = run (rt s0) ctx req;
                             s1 = s0\<lparr>rt := r, calls := calls s0 @ [(ctx, req)]\<rparr>
                         in case res of
                              Inl err \<Rightarrow> (Some (''agent error: '' @ err), Some (s1\<lparr>closed := True\<rparr>))
                            | Inr resp \<Rightarrow> (None, Some ((printResponse resp s1)\<lparr>closed := True\<rparr>)))
                   else (let s1 = s0\<lparr>out := ''myclaw agent (type 'exit' to quit)'' @ nl\<rparr>
                         in (None, Some ((repl trim run ctx lines s1)\<lparr>closed := True\<rparr>))))))"

subsection \<open>runOnboard and writeIfNotExists\<close>

text \<open>
  The file system: regular files with their contents, and the set of directories. A path
  is the string given to the \<open>os\<close> package; its ancestors are its proper prefixes that end
  before a separator. Permissions, links and the space left on the device are not part of
  the model: whether a call fails depends on the files and directories alone.
\<close>

record filesystem =
  files :: "string \<rightharpoonup> string"
  dirs :: "string set"

definition ancestors :: "string \<Rightarrow> string list" where
  "ancestors p = [take i p. i \<leftarrow> [1..<length p], p ! i = CHR ''/'']"

datatype stat_result = IsFile | IsDir | ENOENT | ENOTDIR

text \<open>
  \<open>os.Stat\<close>: \<open>os.IsNotExist\<close> holds of its error exactly for \<open>ENOENT\<close>; a path below a
  regular file fails with \<open>ENOTDIR\<close>, which is an error but not "does not exist".
\<close>

definition Stat :: "filesystem \<Rightarrow> string \<Rightarrow> stat_result" where
  "Stat fs p =
     (if \<exists>a \<in> set (ancestors p). files fs a \<noteq> None then ENOTDIR
      else if files fs p \<noteq> None then IsFile
      else if p \<in> dirs fs then IsDir
      else ENOENT)"

text \<open>
  \<open>os.MkdirAll\<close> creates the directory and every missing ancestor, does nothing when
  the directory exists, and fails when the path or an ancestor is a regular file.
\<close>

definition MkdirAll :: "string \<Rightarrow> filesystem \<Rightarrow> string + filesystem" where
  "MkdirAll p fs =
     (if p = [] then Inl (''mkdir : no such file or directory'')
      else if files fs p \<noteq> None \<or> (\<exists>a \<in> set (ancestors p). files fs a \<noteq> None)
      then Inl (''mkdir '' @ p @ '': not a directory'')
      else Inr (fs\<lparr>dirs := dirs fs \<union> set (ancestors p) \<union> {p}\<rparr>))"

text \<open>
  \<open>os.WriteFile\<close> creates or truncates the file; it fails on a directory and when an
  ancestor is missing or is a regular file.
\<close>

definition WriteFile :: "string \<Rightarrow> string \<Rightarrow> filesystem \<Rightarrow> string + filesystem" where
  "WriteFile p content fs =
     (if p = [] \<or> (\<exists>a \<in> set (ancestors p). a \<notin> dirs fs)
      then Inl (''open '' @ p @ '': no such file or directory'')
      else if \<exists>a \<in> set (ancestors p). files fs a \<noteq> None
      then Inl (''open '' @ p @ '': not a directory'')
      else if p \<in> dirs fs then Inl (''open '' @ p @ '': is a directory'')
      else Inr (fs\<lparr>files := (files fs)(p \<mapsto> content)\<rparr>))"

text \<open>
  writeIfNotExists returns the file system and what it prints. The error of
  \<open>os.WriteFile\<close> is discarded, and the line is printed whether or not the write worked.
\<close>

definition writeIfNotExists :: "string \<Rightarrow> string \<Rightarrow> filesystem \<Rightarrow> filesystem \<times> string" where
  "writeIfNotExists path content fs =
     (if Stat fs path = ENOENT
      then ((case WriteFile path content fs of Inl err \<Rightarrow> fs | Inr fs' \<Rightarrow> fs'),
            ''  Created: '' @ path @ nl)
      else (fs, []))"

definition defaultAgentsMD :: string where
  "defaultAgentsMD =
     ''# myclaw Agent'' @ nl @ nl
     @ ''You are myclaw, a personal AI assistant.'' @ nl @ nl
     @ ''You have access to tools for file operations, web search, and command execution.'' @ nl
     @ ''Use them to help the user accomplish tasks.'' @ nl @ nl
     @ ''## Guidelines'' @ nl
     @ ''- Be concise and helpful'' @ nl
     @ ''- Use tools proactively when needed'' @ nl
     @ ''- Remember information the user tells you by writing to memory'' @ nl
     @ ''- Check your memory context for previously stored information'' @ nl"

definition defaultSoulMD :: string where
  "defaultSoulMD =
     ''# Soul'' @ nl @ nl
     @ ''You are a capable personal assistant that helps with daily tasks,'' @ nl
     @ ''research, coding, and general questions.'' @ nl @ nl
     @ ''Your personality:'' @ nl
     @ ''- Direct and efficient'' @ nl
     @ ''- Technical when needed, simple when possible'' @ nl
     @ ''- Proactive about using tools to get real answers'' @ nl"

text \<open>
  Lines 287 to 296 of runOnboard: the configuration file is written only when
  \<open>os.Stat\<close> says that it does not exist. \<open>defaultJSON\<close> is the indented JSON of
  \<open>config.DefaultConfig()\<close>.
\<close>

definition ensureConfig :: "string \<Rightarrow> string \<Rightarrow> filesystem \<Rightarrow> string + filesystem \<times> string" where
  "ensureConfig configPath defaultJSON fs =
     (if Stat fs configPath = ENOENT
      then (case WriteFile configPath defaultJSON fs of
              Inl err \<Rightarrow> Inl (''write config: '' @ err)
            | Inr fs' \<Rightarrow> Inr (fs', ''Created config: '' @ configPath @ nl))
      else Inr (fs, ''Config already exists: '' @ configPath @ nl))"

text \<open>Lines 307 to 310 of runOnboard: the four files of the workspace.\<close>

definition writeDefaults :: "(string list \<Rightarrow> string) \<Rightarrow> string \<Rightarrow> filesystem \<Rightarrow> filesystem \<times> string" where
  "writeDefaults join ws fs =
     (let (fs1, o1) = writeIfNotExists (join [ws, ''AGENTS.md'']) defaultAgentsMD fs;
          (fs2, o2) = writeIfNotExists (join [ws, ''SOUL.md'']) defaultSoulMD fs1;
          (fs3, o3) = writeIfNotExists (join [ws, ''memory'', ''MEMORY.md'']) [] fs2;
          (fs4, o4) = writeIfNotExists (join [ws, ''HEARTBEAT.md'']) [] fs3
      in (fs4, o1 @ o2 @ o3 @ o4))"

text \<open>Lines 312 to 318 of runOnboard.\<close>

definition nextSteps :: "(string list \<Rightarrow> string) \<Rightarrow> string \<Rightarrow> config \<Rightarrow> string" where
  "nextSteps join configPath cfg =
     ''Workspace ready: '' @ workspace cfg @ nl
     @ ''Skills dir: '' @ resolveSkillsDir join cfg @ nl
     @ nl @ ''Next steps:'' @ nl
     @ ''  1. Edit '' @ configPath @ '' to set your API key'' @ nl
     @ ''  2. Or set MYCLAW_API_KEY environment variable'' @ nl
     @ ''  3. Add skills under '' @ resolveSkillsDir join cfg @ '' (optional)'' @ nl
     @ ''  4. Run 'myclaw agent -m \"Hello\"' to test'' @ nl"

text \<open>
  How runOnboard ends: it returns nil, returns an error, or panics on the nil
  configuration that \<open>LoadConfig\<close> returns with an error, which line 298 discards.
\<close>

datatype exit = ReturnNil | ReturnError string | NilDereference

text \<open>
  runOnboard. \<open>configDir\<close> and \<open>configPath\<close> are \<open>config.ConfigDir()\<close> and
  \<open>config.ConfigPath()\<close>. \<open>loadConfig\<close> is \<open>config.LoadConfig\<close> as a function of the
  content of the configuration file (\<open>None\<close> when there is no such file); the environment
  variables that it also reads are fixed. The result is how the command ends, what it
  prints, and the file system that it leaves.
\<close>

definition runOnboard ::
  "(string list \<Rightarrow> string) \<Rightarrow> string \<Rightarrow> string \<Rightarrow> string \<Rightarrow> (string option \<Rightarrow> loaded)
    \<Rightarrow> filesystem \<Rightarrow> exit \<times> string \<times> filesystem" where
  "runOnboard join configDir configPath defaultJSON loadConfig fs =
     (case MkdirAll configDir fs of
        Inl err \<Rightarrow> (ReturnError (''create config dir: '' @ err), [], fs)
      | Inr fs1 \<Rightarrow>
          (case ensureConfig configPath defaultJSON fs1 of
             Inl err \<Rightarrow> (ReturnError err, [], fs1)
           | Inr (fs2, o2) \<Rightarrow>
               (case loadConfig (files fs2 configPath) of
                  Inl err \<Rightarrow> (NilDereference, o2, fs2)
                | Inr cfg \<Rightarrow>
                    (case MkdirAll (join [workspace cfg, ''memory'']) fs2 of
                       Inl err \<Rightarrow> (ReturnError (''create workspace: '' @ err), o2, fs2)
                     | Inr fs3 \<Rightarrow>
                         (case MkdirAll (resolveSkillsDir join cfg) fs3 of
                            Inl err \<Rightarrow> (ReturnError (''create skills dir: '' @ err), o2, fs3)
                          | Inr fs4 \<Rightarrow>
                              (let (fs5, o5) = writeDefaults join (workspace cfg) fs4
                               in (ReturnNil, o2 @ o5 @ nextSteps join configPath cfg, fs5)))))))"

section \<open>The gateway core: Dispatcher and Heartbeat Monitor\<close>

text \<open>
  main.go only calls \<open>gateway.New\<close> and \<open>Run\<close>; the gateway package itself is not part
  of the sources at hand. The definitions of this section follow sections 3, 4.3, 4.4 and
  4.6 of the specification.
\<close>

subsection \<open>Data model\<close>

text \<open>Modelled from the spec: the channel enum of a Message (section 3 and the glossary).\<close>

datatype channel = Telegram | Feishu | WeCom

text \<open>Modelled from the spec: the Message record of section 3; times are natural numbers.\<close>

record message =
  channel :: channel
  externalConversationID :: string
  externalSenderID :: string
  msgText :: string
  receivedAt :: nat
  idempotencyKey :: string
  rawPayloadRef :: string

text \<open>Modelled from the spec: the session key, (channel, externalConversationID).\<close>

type_synonym session_key = "channel \<times> string"

definition sessionKeyOf :: "message \<Rightarrow> session_key" where
  "sessionKeyOf m = (channel m, externalConversationID m)"

text \<open>
  Modelled from the spec: the Session record of section 3, with the pending queue that
  section 4.3 gives each session.
\<close>

record session =
  reasoningSessionID :: string
  lastActivityAt :: nat
  inFlight :: bool
  pending :: "message list"

text \<open>
  Modelled from the spec: the policy values of section 6 that the Dispatcher reads (dedup
  window, retry bound, per-call timeout, session idle TTL), the text of the fallback
  reply, and the reasoning session id given to a new session.
\<close>

record dispatcher_config =
  dedupWindow :: nat
  retryBound :: nat
  callTimeout :: nat
  idleTTL :: nat
  fallbackText :: string
  newSessionID :: "session_key \<Rightarrow> string"

text \<open>
  Modelled from the spec: a call of the reasoning backend that has not returned yet: the
  Message it serves, the request built from it and the number of the attempt.
\<close>

record backend_call =
  callMessage :: message
  callRequest :: request
  callAttempt :: nat

text \<open>
  Modelled from the spec: what the Dispatcher does to its collaborators: it invokes the
  reasoning backend (context, request, the Message served, number of the attempt), calls
  \<open>Send\<close> of a channel's adapter (conversation, text), and logs a failure.
\<close>

datatype action =
    BackendRun go_context request message nat
  | AdapterSend channel string string
  | LogFailure message

text \<open>
  Modelled from the spec: the state of the Dispatcher: the Session Store, the recently-seen
  set of idempotency keys with the time each was recorded, the backend calls in flight,
  and the actions taken so far.
\<close>

record dispatcher =
  sessions :: "session_key \<rightharpoonup> session"
  recentlySeen :: "string \<rightharpoonup> nat"
  running :: "backend_call list"
  history :: "action list"

text \<open>
  Modelled from the spec: what happens to the Dispatcher, each with the time at which it
  happens: a Message comes out of the intake queue, the backend call of a session
  returns a response text, that call times out or fails transiently, and the periodic
  \<open>EvictExpired\<close> of the Session Store.
\<close>

datatype event =
    Arrive nat message
  | BackendOk nat session_key string
  | BackendFailed nat session_key
  | EvictExpired nat

subsection \<open>The algorithm of section 4.3\<close>

text \<open>Modelled from the spec: \<open>GetOrCreate\<close> of the Session Store (4.4), step 1 of 4.3.\<close>

definition getOrCreate :: "dispatcher_config \<Rightarrow> nat \<Rightarrow> session_key \<Rightarrow> dispatcher \<Rightarrow> session" where
  "getOrCreate cfg now k d =
     (case sessions d k of
        Some s \<Rightarrow> s
      | None \<Rightarrow> \<lparr>reasoningSessionID = newSessionID cfg k, lastActivityAt = now,
                  inFlight = False, pending = []\<rparr>)"

text \<open>
  Modelled from the spec: step 3 of 4.3: mark the session in flight, build the request
  from the reasoning session id and the text, invoke the backend under a bounded timeout.
\<close>

definition invoke :: "dispatcher_config \<Rightarrow> session_key \<Rightarrow> session \<Rightarrow> message \<Rightarrow> dispatcher \<Rightarrow> dispatcher" where
  "invoke cfg k s m d =
     (let req = \<lparr>Prompt = msgText m, SessionID = reasoningSessionID s\<rparr>
      in d\<lparr>sessions := (sessions d)(k \<mapsto> s\<lparr>inFlight := True\<rparr>),
           running := running d @ [\<lparr>callMessage = m, callRequest = req, callAttempt = 1\<rparr>],
           history := history d
             @ [BackendRun (WithTimeout Background (callTimeout cfg)) req m 1]\<rparr>)"

text \<open>
  Modelled from the spec: steps 1 to 3 of 4.3 for one Message: a Message for a session in
  flight is appended to the session's pending queue and nothing else happens.
\<close>

definition dispatch :: "dispatcher_config \<Rightarrow> nat \<Rightarrow> message \<Rightarrow> dispatcher \<Rightarrow> dispatcher" where
  "dispatch cfg now m d =
     (let k = sessionKeyOf m; s = getOrCreate cfg now k d
      in if inFlight s
         then d\<lparr>sessions := (sessions d)(k \<mapsto> s\<lparr>pending := pending s @ [m]\<rparr>)\<rparr>
         else invoke cfg k s m d)"

text \<open>
  Modelled from the spec: the deduplication before step 1: an idempotency key recorded less
  than the dedup window ago marks an exact duplicate.
\<close>

definition isDuplicate :: "dispatcher_config \<Rightarrow> nat \<Rightarrow> (string \<rightharpoonup> nat) \<Rightarrow> message \<Rightarrow> bool" where
  "isDuplicate cfg now seen m =
     (case seen (idempotencyKey m) of
        None \<Rightarrow> False
      | Some t \<Rightarrow> now < t + dedupWindow cfg)"

text \<open>
  Modelled from the spec: a Message taken from the intake queue: a duplicate is discarded,
  any other Message is recorded as seen and dispatched.
\<close>

definition intake :: "dispatcher_config \<Rightarrow> nat \<Rightarrow> message \<Rightarrow> dispatcher \<Rightarrow> dispatcher" where
  "intake cfg now m d =
     (if isDuplicate cfg now (recentlySeen d) m then d
      else dispatch cfg now m
             (d\<lparr>recentlySeen := (recentlySeen d)(idempotencyKey m \<mapsto> now)\<rparr>))"

text \<open>
  Modelled from the spec: step 6 of 4.3: after a call has completed the next pending
  Message of the session is dequeued and invoked, or the session stops being in flight.
\<close>

definition complete :: "dispatcher_config \<Rightarrow> session_key \<Rightarrow> dispatcher \<Rightarrow> dispatcher" where
  "complete cfg k d =
     (case sessions d k of
        None \<Rightarrow> d
      | Some s \<Rightarrow>
          (case pending s of
             [] \<Rightarrow> d\<lparr>sessions := (sessions d)(k \<mapsto> s\<lparr>inFlight := False\<rparr>)\<rparr>
           | m # rest \<Rightarrow> invoke cfg k (s\<lparr>pending := rest\<rparr>) m d))"

text \<open>Modelled from the spec: the backend call in flight for a session key, if any.\<close>

definition currentCall :: "session_key \<Rightarrow> dispatcher \<Rightarrow> backend_call option" where
  "currentCall k d = find (\<lambda>c. sessionKeyOf (callMessage c) = k) (running d)"

text \<open>Modelled from the spec: \<open>Touch\<close> of the Session Store (4.4).\<close>

definition touch :: "nat \<Rightarrow> session_key \<Rightarrow> dispatcher \<Rightarrow> dispatcher" where
  "touch now k d =
     (case sessions d k of
        None \<Rightarrow> d
      | Some s \<Rightarrow> d\<lparr>sessions := (sessions d)(k \<mapsto> s\<lparr>lastActivityAt := now\<rparr>)\<rparr>)"

text \<open>
  Modelled from the spec: step 4 of 4.3: the response text goes to \<open>Send\<close> of the adapter of
  the Message's channel, the session is touched, and step 6 follows.
\<close>

definition onSuccess :: "dispatcher_config \<Rightarrow> nat \<Rightarrow> session_key \<Rightarrow> string \<Rightarrow> dispatcher \<Rightarrow> dispatcher" where
  "onSuccess cfg now k reply d =
     (case currentCall k d of
        None \<Rightarrow> d
      | Some c \<Rightarrow>
          complete cfg k (touch now k
            (d\<lparr>running := remove1 c (running d),
               history := history d
                 @ [AdapterSend (channel (callMessage c))
                      (externalConversationID (callMessage c)) reply]\<rparr>)))"

text \<open>
  Modelled from the spec: step 5 of 4.3: a call that timed out or failed transiently is
  invoked again while its attempts are below the retry bound; after that the fallback
  text is sent, the failure is logged, and step 6 follows. The waiting time of the
  exponential backoff is not part of the model.
\<close>

definition onFailure :: "dispatcher_config \<Rightarrow> nat \<Rightarrow> session_key \<Rightarrow> dispatcher \<Rightarrow> dispatcher" where
  "onFailure cfg now k d =
     (case currentCall k d of
        None \<Rightarrow> d
      | Some c \<Rightarrow>
          if callAttempt c < retryBound cfg
          then d\<lparr>running := remove1 c (running d) @ [c\<lparr>callAttempt := Suc (callAttempt c)\<rparr>],
                 history := history d
                   @ [BackendRun (WithTimeout Background (callTimeout cfg)) (callRequest c)
                        (callMessage c) (Suc (callAttempt c))]\<rparr>
          else complete cfg k
                 (d\<lparr>running := remove1 c (running d),
                    history := history d
                      @ [AdapterSend (channel (callMessage c))
                           (externalConversationID (callMessage c)) (fallbackText cfg),
                         LogFailure (callMessage c)]\<rparr>))"

text \<open>
  Modelled from the spec: \<open>EvictExpired\<close> of the Session Store (4.4): sessions idle beyond
  the TTL are dropped, but never one that is in flight.
\<close>

definition evictExpired :: "dispatcher_config \<Rightarrow> nat \<Rightarrow> dispatcher \<Rightarrow> dispatcher" where
  "evictExpired cfg now d =
     d\<lparr>sessions := (\<lambda>k. case sessions d k of
                          None \<Rightarrow> None
                        | Some s \<Rightarrow>
                            if \<not> inFlight s \<and> lastActivityAt s + idleTTL cfg < now
                            then None else Some s)\<rparr>"

text \<open>Modelled from the spec: the Dispatcher's reaction to one event.\<close>

fun step :: "dispatcher_config \<Rightarrow> dispatcher \<Rightarrow> event \<Rightarrow> dispatcher" where
  "step cfg d (Arrive now m) = intake cfg now m d"
| "step cfg d (BackendOk now k reply) = onSuccess cfg now k reply d"
| "step cfg d (BackendFailed now k) = onFailure cfg now k d"
| "step cfg d (EvictExpired now) = evictExpired cfg now d"

text \<open>Modelled from the spec: the Dispatcher at startup, and after a sequence of events.\<close>

definition initial :: dispatcher where
  "initial = \<lparr>sessions = Map.empty, recentlySeen = Map.empty, running = [], history = []\<rparr>"

definition runDispatcher :: "dispatcher_config \<Rightarrow> event list \<Rightarrow> dispatcher" where
  "runDispatcher cfg evs = foldl (step cfg) initial evs"

subsection \<open>What is observed of a Dispatcher\<close>

text \<open>Modelled from the spec: the backend calls in flight for a session key.\<close>

definition callsInFlight :: "session_key \<Rightarrow> dispatcher \<Rightarrow> backend_call list" where
  "callsInFlight k d = filter (\<lambda>c. sessionKeyOf (callMessage c) = k) (running d)"

text \<open>Modelled from the spec: the inFlight flag of a session key; no session, no flag.\<close>

definition sessionInFlight :: "dispatcher \<Rightarrow> session_key \<Rightarrow> bool" where
  "sessionInFlight d k = (case sessions d k of None \<Rightarrow> False | Some s \<Rightarrow> inFlight s)"

text \<open>Modelled from the spec: the pending queue of a session key.\<close>

definition pendingOf :: "dispatcher \<Rightarrow> session_key \<Rightarrow> message list" where
  "pendingOf d k = (case sessions d k of None \<Rightarrow> [] | Some s \<Rightarrow> pending s)"

text \<open>
  Modelled from the spec: the Messages delivered to the backend, in the order of their
  first attempts (a retry does not deliver its Message again), and those of them that
  belong to one session key.
\<close>

fun firstAttempt :: "action \<Rightarrow> message list" where
  "firstAttempt (BackendRun c r m a) = (if a = 1 then [m] else [])"
| "firstAttempt (AdapterSend ch conv t) = []"
| "firstAttempt (LogFailure m) = []"

definition deliveredAll :: "dispatcher \<Rightarrow> message list" where
  "deliveredAll d = concat (map firstAttempt (history d))"

definition delivered :: "session_key \<Rightarrow> dispatcher \<Rightarrow> message list" where
  "delivered k d = filter (\<lambda>m. sessionKeyOf m = k) (deliveredAll d)"

text \<open>
  Modelled from the spec: the Messages of an event sequence that pass the deduplication,
  in their order of arrival, computed from the events alone.
\<close>

fun accepted :: "dispatcher_config \<Rightarrow> (string \<rightharpoonup> nat) \<Rightarrow> event list \<Rightarrow> message list" where
  "accepted cfg seen [] = []"
| "accepted cfg seen (Arrive now m # evs) =
     (if isDuplicate cfg now seen m then accepted cfg seen evs
      else m # accepted cfg (seen(idempotencyKey m \<mapsto> now)) evs)"
| "accepted cfg seen (BackendOk now k reply # evs) = accepted cfg seen evs"
| "accepted cfg seen (BackendFailed now k # evs) = accepted cfg seen evs"
| "accepted cfg seen (EvictExpired now # evs) = accepted cfg seen evs"

subsection \<open>The Heartbeat Monitor of section 4.6\<close>

text \<open>Modelled from the spec: the HeartbeatRecord of section 3.\<close>

record heartbeat_record =
  lastSuccessAt :: nat
  consecutiveFailures :: nat
  interval :: nat
  failureThreshold :: nat

text \<open>
  Modelled from the spec: one run of the heartbeat job at a time \<open>now\<close> whose self-check
  succeeded or failed (4.6). A success resets the counter; a failure increments it, and
  when it reaches the threshold the escalation Message for the administrative
  conversation, \<open>escalation now\<close>, is emitted. The result is the record and the Messages
  emitted.
\<close>

definition heartbeatRun ::
  "(nat \<Rightarrow> message) \<Rightarrow> heartbeat_record \<Rightarrow> nat \<times> bool \<Rightarrow> heartbeat_record \<times> message list" where
  "heartbeatRun escalation hb run =
     (let (now, ok) = run
      in if ok then (hb\<lparr>lastSuccessAt := now, consecutiveFailures := 0\<rparr>, [])
         else (let n = Suc (consecutiveFailures hb)
               in (hb\<lparr>consecutiveFailures := n\<rparr>,
                   if n = failureThreshold hb then [escalation now] else [])))"

text \<open>Modelled from the spec: a sequence of heartbeat runs and all Messages they emit.\<close>

fun heartbeatRuns ::
  "(nat \<Rightarrow> message) \<Rightarrow> heartbeat_record \<Rightarrow> (nat \<times> bool) list \<Rightarrow> heartbeat_record \<times> message list" where
  "heartbeatRuns escalation hb [] = (hb, [])"
| "heartbeatRuns escalation hb (run # runs) =
     (let (hb1, out1) = heartbeatRun escalation hb run;
          (hb2, out2) = heartbeatRuns escalation hb1 runs
      in (hb2, out1 @ out2))"

text \<open>
  Modelled from the spec: the failure episodes of a sequence of outcomes: the lengths of its
  maximal runs of consecutive failures, \<open>n\<close> being the failures counted before the
  sequence starts.
\<close>

fun failureEpisodes :: "nat \<Rightarrow> bool list \<Rightarrow> nat list" where
  "failureEpisodes n [] = (if n = 0 then [] else [n])"
| "failureEpisodes n (ok # oks) =
     (if ok then (if n = 0 then failureEpisodes 0 oks else n # failureEpisodes 0 oks)
      else failureEpisodes (Suc n) oks)"

section \<open>Helper notions for the proofs\<close>

text \<open>
  Three notions for reasoning about runOnboard. A file system extends another when it has
  all its directories and differs from it only at paths that did not exist; a directory
  is ready when \<open>os.MkdirAll\<close> of it changes nothing; a path is settled when
  writeIfNotExists leaves the file system alone there.
\<close>

definition extends :: "filesystem \<Rightarrow> filesystem \<Rightarrow> bool" where
  "extends fs fs' \<longleftrightarrow>
     dirs fs \<subseteq> dirs fs' \<and> (\<forall>p. files fs' p \<noteq> files fs p \<longrightarrow> Stat fs p = ENOENT)"

definition dirReady :: "string \<Rightarrow> filesystem \<Rightarrow> bool" where
  "dirReady p fs \<longleftrightarrow> MkdirAll p fs = Inr fs"

definition settled :: "string \<Rightarrow> filesystem \<Rightarrow> bool" where
  "settled p fs \<longleftrightarrow> Stat fs p \<noteq> ENOENT \<or> p = [] \<or> (\<exists>a \<in> set (ancestors p). a \<notin> dirs fs)"


text \<open>
  Two invariants of the Dispatcher. It is well formed when every session key has one
  backend call in flight if its flag is set and none otherwise, only sessions in flight
  have pending Messages, and the pending Messages of a session carry its key. Attempts
  are counted from one.
\<close>

definition wellFormed :: "dispatcher \<Rightarrow> bool" where
  "wellFormed d \<longleftrightarrow>
     (\<forall>k. length (callsInFlight k d) = (if sessionInFlight d k then 1 else 0))
     \<and> (\<forall>k. \<not> sessionInFlight d k \<longrightarrow> pendingOf d k = [])
     \<and> (\<forall>k. \<forall>m \<in> set (pendingOf d k). sessionKeyOf m = k)"

definition attemptsCounted :: "dispatcher \<Rightarrow> bool" where
  "attemptsCounted d \<longleftrightarrow> (\<forall>c \<in> set (running d). 0 < callAttempt c)"

section \<open>Properties of the command line front end\<close>

subsection \<open>runStatus and the API key\<close>

text \<open>
  C10, as amended. runStatus prints of a key of more than eight bytes only its first four
  and its last four bytes, and of a non-empty key of at most eight bytes only the word
  "set". So two configurations that differ only in their keys print the same status when
  both keys are longer than eight bytes and agree on their first four and on their last
  four bytes, and also when both keys are non-empty and at most eight bytes long.
\<close>

theorem runStatus_masks_apiKey:
  assumes "(8 < length k1 \<and> 8 < length k2 \<and> take 4 k1 = take 4 k2
              \<and> drop (length k1 - 4) k1 = drop (length k2 - 4) k2)
           \<or> (k1 \<noteq> [] \<and> k2 \<noteq> [] \<and> length k1 \<le> 8 \<and> length k2 \<le> 8)"
  shows "runStatus join configPath statOk readLongTerm (Inr (cfg\<lparr>apiKey := k1\<rparr>))
           = runStatus join configPath statOk readLongTerm (Inr (cfg\<lparr>apiKey := k2\<rparr>))"
  using assms
  by (auto simp add: runStatus_def apiKeyLine_def resolveSkillsDir_def memoryLine_def)

theorem runStatus_masks_apiKey_witness:
  "runStatus concat ''/home/u/.myclaw/config.json'' (\<lambda>p. True) (\<lambda>p. ''remember'')
     (Inr \<lparr>apiKey = ''sk-ant-test-key-12345678'', providerType = ''openai'',
           workspace = ''/ws'', modelName = ''m'', telegramEnabled = True,
           feishuEnabled = False, wecomEnabled = False, skillsEnabled = True,
           skillsDir = []\<rparr>)
   = runStatus concat ''/home/u/.myclaw/config.json'' (\<lambda>p. True) (\<lambda>p. ''remember'')
     (Inr \<lparr>apiKey = ''sk-a-other-secret-5678'', providerType = ''openai'',
           workspace = ''/ws'', modelName = ''m'', telegramEnabled = True,
           feishuEnabled = False, wecomEnabled = False, skillsEnabled = True,
           skillsDir = []\<rparr>)"
  using runStatus_masks_apiKey [of "''sk-ant-test-key-12345678''" "''sk-a-other-secret-5678''"
      concat "''/home/u/.myclaw/config.json''" "\<lambda>p. True" "\<lambda>p. ''remember''"
      "\<lparr>apiKey = [], providerType = ''openai'', workspace = ''/ws'', modelName = ''m'',
        telegramEnabled = True, feishuEnabled = False, wecomEnabled = False,
        skillsEnabled = True, skillsDir = []\<rparr>"]
  by simp

text \<open>
  The claim as first stated fails in two ways. Across the threshold of eight bytes: a key
  of eight bytes and a key of nine bytes with the same first four and the same last four
  bytes, in otherwise equal configurations, print different status texts. And a key of
  eleven bytes whose middle three bytes are dots is printed in full.
\<close>

theorem runStatus_masks_apiKey_counterexample:
  "take 4 ''abcdwxyz'' = take 4 ''abcd0wxyz''
   \<and> drop (length ''abcdwxyz'' - 4) ''abcdwxyz'' = drop (length ''abcd0wxyz'' - 4) ''abcd0wxyz''
   \<and> runStatus concat ''/c'' (\<lambda>p. True) (\<lambda>p. ''hello'')
        (Inr \<lparr>apiKey = ''abcdwxyz'', providerType = [], workspace = ''/ws'',
              modelName = ''m'', telegramEnabled = True, feishuEnabled = False,
              wecomEnabled = False, skillsEnabled = True, skillsDir = []\<rparr>)
     \<noteq> runStatus concat ''/c'' (\<lambda>p. True) (\<lambda>p. ''hello'')
        (Inr \<lparr>apiKey = ''abcd0wxyz'', providerType = [], workspace = ''/ws'',
              modelName = ''m'', telegramEnabled = True, feishuEnabled = False,
              wecomEnabled = False, skillsEnabled = True, skillsDir = []\<rparr>)
   \<and> apiKeyLine ''abcd...wxyz'' = ''API Key: abcd...wxyz'' @ nl"
  by (simp add: runStatus_def apiKeyLine_def)

subsection \<open>runGateway and configuration errors\<close>

text \<open>
  C7, as amended. runGateway runs the gateway exactly when the configuration loads, the
  API key of the provider is not empty and \<open>gateway.New\<close> succeeds; it then returns what
  the gateway's \<open>Run\<close> returns. In every other case it returns an error before any gateway
  exists, so for every channel at once.
\<close>

theorem runGateway_runs_iff:
  "runGateway new run ld = Ran gw r \<longleftrightarrow>
     (\<exists>cfg. ld = Inr cfg \<and> apiKey cfg \<noteq> [] \<and> new cfg = Inr gw \<and> run gw = r)"
  by (auto simp add: runGateway_def split: sum.splits)

theorem runGateway_runs_iff_witness:
  "runGateway (\<lambda>cfg. if telegramEnabled cfg then Inr (1::nat) else Inl ''no channel'')
     (\<lambda>gw. None)
     (Inr \<lparr>apiKey = ''sk-key'', providerType = [], workspace = ''/ws'', modelName = ''m'',
           telegramEnabled = True, feishuEnabled = False, wecomEnabled = False,
           skillsEnabled = False, skillsDir = []\<rparr>)
   = Ran 1 None"
  using runGateway_runs_iff [of "\<lambda>cfg. if telegramEnabled cfg then Inr (1::nat) else Inl ''no channel''"
      "\<lambda>gw. None"
      "Inr \<lparr>apiKey = ''sk-key'', providerType = [], workspace = ''/ws'', modelName = ''m'',
           telegramEnabled = True, feishuEnabled = False, wecomEnabled = False,
           skillsEnabled = False, skillsDir = []\<rparr>" 1 None]
  by simp

text \<open>
  The claim as first stated fails: with an empty API key and all three channels enabled,
  runGateway returns the error at once, although \<open>gateway.New\<close> and \<open>Run\<close> would have
  succeeded; no channel is started, not only a misconfigured one.
\<close>

theorem runGateway_config_error_counterexample:
  "runGateway (\<lambda>cfg. Inr (1::nat)) (\<lambda>gw. None)
     (Inr \<lparr>apiKey = [], providerType = [], workspace = ''/ws'', modelName = ''m'',
           telegramEnabled = True, feishuEnabled = True, wecomEnabled = True,
           skillsEnabled = False, skillsDir = []\<rparr>)
   = Aborted apiKeyNotSet"
  by (simp add: runGateway_def)

subsection \<open>runAgentWithOptions and the context of Run\<close>

lemma repl_calls:
  "calls (repl trim run ctx ls s) =
     calls s @ map (\<lambda>l. (ctx, \<lparr>Prompt = trim l, SessionID = ''cli-repl''\<rparr>))
       (filter (\<lambda>l. trim l \<noteq> [])
          (takeWhile (\<lambda>l. trim l \<noteq> ''exit'' \<and> trim l \<noteq> ''quit'') ls))"
proof (induction ls arbitrary: s)
  case Nil
  then show ?case by simp
next
  case (Cons l ls)
  show ?case
    by (cases "run (rt s) ctx \<lparr>Prompt = trim l, SessionID = ''cli-repl''\<rparr>")
       (auto simp add: Let_def Cons.IH printResponse_def split: sum.splits option.splits)
qed

text \<open>
  C8, as amended. The agent command calls \<open>Run\<close> itself, with \<open>context.Background()\<close>,
  which has no deadline: once with the session id "cli" when a message is given on the
  command line, and otherwise once with the session id "cli-repl" for every input line
  that is not blank, up to the first line that reads "exit" or "quit".
\<close>

theorem runAgent_calls_Run_with_Background:
  assumes "runAgentWithOptions apiNew run trim messageFlag factory ls ld = (e, Some s)"
  shows "calls s =
     (if messageFlag \<noteq> [] then [(Background, \<lparr>Prompt = messageFlag, SessionID = ''cli''\<rparr>)]
      else map (\<lambda>l. (Background, \<lparr>Prompt = trim l, SessionID = ''cli-repl''\<rparr>))
             (filter (\<lambda>l. trim l \<noteq> [])
                (takeWhile (\<lambda>l. trim l \<noteq> ''exit'' \<and> trim l \<noteq> ''quit'') ls)))
     \<and> (\<forall>c \<in> set (map fst (calls s)). \<not> bounded c)"
proof -
  have c: "calls s =
     (if messageFlag \<noteq> [] then [(Background, \<lparr>Prompt = messageFlag, SessionID = ''cli''\<rparr>)]
      else map (\<lambda>l. (Background, \<lparr>Prompt = trim l, SessionID = ''cli-repl''\<rparr>))
             (filter (\<lambda>l. trim l \<noteq> [])
                (takeWhile (\<lambda>l. trim l \<noteq> ''exit'' \<and> trim l \<noteq> ''quit'') ls)))"
    using assms
    by (auto simp add: runAgentWithOptions_def Let_def repl_calls printResponse_def
        split: sum.splits prod.splits option.splits if_splits)
  then have "\<forall>c \<in> set (map fst (calls s)). \<not> bounded c"
    by (auto split: if_splits)
  with c show ?thesis by blast
qed

theorem runAgent_calls_Run_with_Background_witness:
  "calls \<lparr>rt = Suc (Suc 0),
          calls = [(Background, \<lparr>Prompt = ''a'', SessionID = ''cli-repl''\<rparr>),
                   (Background, \<lparr>Prompt = ''b'', SessionID = ''cli-repl''\<rparr>)],
          out = ''myclaw agent (type 'exit' to quit)'' @ nl @ nl @ ''> '' @ nl @ ''> ''
                  @ nl @ ''> '' @ nl @ ''> '',
          errOut = [], closed = True\<rparr>
   = map (\<lambda>l. (Background, \<lparr>Prompt = l, SessionID = ''cli-repl''\<rparr>))
       (filter (\<lambda>l. l \<noteq> []) (takeWhile (\<lambda>l. l \<noteq> ''exit'' \<and> l \<noteq> ''quit'') [''a'', [], ''b'', ''exit'', ''c'']))"
proof -
  have "runAgentWithOptions (\<lambda>cfg. Inr 0) (\<lambda>n c r. (Inr None, Suc n)) (\<lambda>l. l) [] None
          [''a'', [], ''b'', ''exit'', ''c'']
          (Inr \<lparr>apiKey = ''sk-key'', providerType = [], workspace = ''/ws'', modelName = ''m'',
                telegramEnabled = False, feishuEnabled = False, wecomEnabled = False,
                skillsEnabled = False, skillsDir = []\<rparr>)
        = (None, Some \<lparr>rt = Suc (Suc 0),
            calls = [(Background, \<lparr>Prompt = ''a'', SessionID = ''cli-repl''\<rparr>),
                     (Background, \<lparr>Prompt = ''b'', SessionID = ''cli-repl''\<rparr>)],
            out = ''myclaw agent (type 'exit' to quit)'' @ nl @ nl @ ''> '' @ nl @ ''> ''
                    @ nl @ ''> '' @ nl @ ''> '',
            errOut = [], closed = True\<rparr>)"
    by (simp add: runAgentWithOptions_def DefaultRuntimeFactory_def printResponse_def Let_def)
  from runAgent_calls_Run_with_Background [OF this] show ?thesis by simp
qed

text \<open>
  The claim as first stated fails: with the message "hi" on the command line the agent
  command, which is not the Dispatcher, calls \<open>Run\<close> once, and the context of that call
  is the background context, which is not bounded.
\<close>

theorem runAgent_unbounded_context_counterexample:
  "runAgentWithOptions (\<lambda>cfg. Inr 0) (\<lambda>n c r. (Inr (Some (Some ''hello'')), Suc n)) (\<lambda>l. l)
     ''hi'' None []
     (Inr \<lparr>apiKey = ''sk-key'', providerType = [], workspace = ''/ws'', modelName = ''m'',
           telegramEnabled = False, feishuEnabled = False, wecomEnabled = False,
           skillsEnabled = False, skillsDir = []\<rparr>)
   = (None, Some \<lparr>rt = Suc 0,
        calls = [(Background, \<lparr>Prompt = ''hi'', SessionID = ''cli''\<rparr>)],
        out = ''hello'' @ nl, errOut = [], closed = True\<rparr>)
   \<and> \<not> bounded Background"
  by (simp add: runAgentWithOptions_def DefaultRuntimeFactory_def printResponse_def Let_def)

subsection \<open>runOnboard keeps what exists\<close>

lemma Stat_ENOENT_iff:
  "Stat fs p = ENOENT \<longleftrightarrow>
     (\<forall>a \<in> set (ancestors p). files fs a = None) \<and> files fs p = None \<and> p \<notin> dirs fs"
  by (auto simp add: Stat_def)

lemma extends_refl: "extends fs fs"
  by (simp add: extends_def)

lemma extends_files_None:
  assumes "extends fs fs'" and "files fs' p = None"
  shows "files fs p = None"
proof (cases "files fs' p = files fs p")
  case True
  with assms(2) show ?thesis by simp
next
  case False
  with assms(1) have "Stat fs p = ENOENT" by (simp add: extends_def)
  then show ?thesis by (simp add: Stat_ENOENT_iff)
qed

lemma extends_Stat_ENOENT:
  assumes e: "extends fs fs'" and s: "Stat fs' p = ENOENT"
  shows "Stat fs p = ENOENT"
proof -
  from s have a: "\<forall>a \<in> set (ancestors p). files fs' a = None"
    and f: "files fs' p = None" and d: "p \<notin> dirs fs'"
    by (simp_all add: Stat_ENOENT_iff)
  have "\<forall>a \<in> set (ancestors p). files fs a = None"
    using a extends_files_None[OF e] by blast
  moreover have "files fs p = None"
    using f extends_files_None[OF e] by blast
  moreover have "p \<notin> dirs fs"
    using d e by (auto simp add: extends_def)
  ultimately show ?thesis by (simp add: Stat_ENOENT_iff)
qed

lemma extends_trans:
  assumes "extends fs fs'" and "extends fs' fs''"
  shows "extends fs fs''"
  unfolding extends_def
proof (intro conjI allI impI)
  show "dirs fs \<subseteq> dirs fs''" using assms by (auto simp add: extends_def)
next
  fix p assume d: "files fs'' p \<noteq> files fs p"
  show "Stat fs p = ENOENT"
  proof (cases "files fs' p = files fs p")
    case True
    with d have "files fs'' p \<noteq> files fs' p" by simp
    with assms(2) have "Stat fs' p = ENOENT" by (simp add: extends_def)
    with assms(1) show ?thesis by (rule extends_Stat_ENOENT)
  next
    case False
    with assms(1) show ?thesis by (simp add: extends_def)
  qed
qed

lemma extends_keeps_file:
  assumes "extends fs fs'" and "files fs p = Some c"
  shows "files fs' p = Some c"
proof (rule ccontr)
  assume "files fs' p \<noteq> Some c"
  with assms(2) have "files fs' p \<noteq> files fs p" by simp
  with assms(1) have "Stat fs p = ENOENT" by (simp add: extends_def)
  with assms(2) show False by (simp add: Stat_ENOENT_iff)
qed

lemma extends_keeps_present:
  assumes "extends fs fs'" and "Stat fs p \<noteq> ENOENT"
  shows "Stat fs' p \<noteq> ENOENT \<and> files fs' p = files fs p"
proof
  show "Stat fs' p \<noteq> ENOENT"
    using assms(2) extends_Stat_ENOENT[OF assms(1), of p] by blast
  show "files fs' p = files fs p"
    using assms by (auto simp add: extends_def)
qed

lemma MkdirAll_extends: "MkdirAll p fs = Inr fs' \<Longrightarrow> extends fs fs' \<and> files fs' = files fs"
  by (auto simp add: MkdirAll_def extends_def split: if_splits)

lemma dirReady_iff:
  "dirReady p fs \<longleftrightarrow>
     p \<noteq> [] \<and> files fs p = None \<and> (\<forall>a \<in> set (ancestors p). files fs a = None)
     \<and> p \<in> dirs fs \<and> set (ancestors p) \<subseteq> dirs fs"
proof -
  have eq: "fs\<lparr>dirs := D\<rparr> = fs \<longleftrightarrow> D = dirs fs" for D
    by (cases fs) auto
  show ?thesis
    by (auto simp add: dirReady_def MkdirAll_def eq)
qed

lemma MkdirAll_dirReady: "MkdirAll p fs = Inr fs' \<Longrightarrow> dirReady p fs'"
  by (auto simp add: dirReady_iff MkdirAll_def split: if_splits)

lemma extends_dirReady:
  assumes "extends fs fs'" and "dirReady p fs"
  shows "dirReady p fs'"
proof -
  have present: "Stat fs q \<noteq> ENOENT" if "q \<in> dirs fs" for q
    using that by (simp add: Stat_ENOENT_iff)
  have same: "files fs' q = files fs q" if "q \<in> dirs fs" for q
    using extends_keeps_present[OF assms(1) present[OF that]] by simp
  have sub: "dirs fs \<subseteq> dirs fs'"
    using assms(1) by (simp add: extends_def)
  from assms(2) have p: "p \<noteq> []" "files fs p = None" "p \<in> dirs fs"
    and a: "\<forall>a \<in> set (ancestors p). files fs a = None" "set (ancestors p) \<subseteq> dirs fs"
    by (simp_all add: dirReady_iff)
  have "files fs' p = None" using same[OF p(3)] p(2) by simp
  moreover have "\<forall>b \<in> set (ancestors p). files fs' b = None"
    using a same by (metis subsetD)
  moreover have "p \<in> dirs fs'" "set (ancestors p) \<subseteq> dirs fs'"
    using p(3) a(2) sub by auto
  ultimately show ?thesis using p(1) by (simp add: dirReady_iff)
qed

lemma WriteFile_extends:
  "Stat fs p = ENOENT \<Longrightarrow> WriteFile p c fs = Inr fs' \<Longrightarrow> extends fs fs' \<and> dirs fs' = dirs fs \<and> Stat fs' p \<noteq> ENOENT"
  by (auto simp add: WriteFile_def extends_def Stat_ENOENT_iff split: if_splits)

lemma writeIfNotExists_extends:
  "extends fs (fst (writeIfNotExists p c fs)) \<and> dirs (fst (writeIfNotExists p c fs)) = dirs fs"
  using WriteFile_extends[of fs p c]
  by (auto simp add: writeIfNotExists_def extends_refl split: sum.splits)

lemma writeIfNotExists_settled: "settled p (fst (writeIfNotExists p c fs))"
proof (cases "Stat fs p = ENOENT")
  case False
  then show ?thesis by (simp add: writeIfNotExists_def settled_def)
next
  case True
  show ?thesis
  proof (cases "WriteFile p c fs")
    case (Inl e)
    then show ?thesis using True
      by (auto simp add: writeIfNotExists_def settled_def WriteFile_def Stat_ENOENT_iff split: if_splits)
  next
    case (Inr fs')
    then show ?thesis using True WriteFile_extends[OF True Inr]
      by (simp add: writeIfNotExists_def settled_def)
  qed
qed

lemma settled_noop: "settled p fs \<Longrightarrow> writeIfNotExists p c fs = (fs, if Stat fs p = ENOENT then ''  Created: '' @ p @ nl else [])"
  by (auto simp add: writeIfNotExists_def settled_def WriteFile_def split: sum.splits)

lemma settled_extends:
  assumes "extends fs fs'" and "dirs fs' = dirs fs" and "settled p fs"
  shows "settled p fs'"
  using assms(2,3) extends_keeps_present[OF assms(1), of p] by (auto simp add: settled_def)

lemma writeDefaults_extends:
  "extends fs (fst (writeDefaults join ws fs)) \<and> dirs (fst (writeDefaults join ws fs)) = dirs fs"
proof -
  define f1 where "f1 = fst (writeIfNotExists (join [ws, ''AGENTS.md'']) defaultAgentsMD fs)"
  define f2 where "f2 = fst (writeIfNotExists (join [ws, ''SOUL.md'']) defaultSoulMD f1)"
  define f3 where "f3 = fst (writeIfNotExists (join [ws, ''memory'', ''MEMORY.md'']) [] f2)"
  define f4 where "f4 = fst (writeIfNotExists (join [ws, ''HEARTBEAT.md'']) [] f3)"
  have r: "fst (writeDefaults join ws fs) = f4"
    by (simp add: writeDefaults_def f1_def f2_def f3_def f4_def split: prod.splits)
  have e1: "extends fs f1" "dirs f1 = dirs fs"
    using writeIfNotExists_extends[of fs] by (simp_all add: f1_def)
  have e2: "extends f1 f2" "dirs f2 = dirs f1"
    using writeIfNotExists_extends[of f1] by (simp_all add: f2_def)
  have e3: "extends f2 f3" "dirs f3 = dirs f2"
    using writeIfNotExists_extends[of f2] by (simp_all add: f3_def)
  have e4: "extends f3 f4" "dirs f4 = dirs f3"
    using writeIfNotExists_extends[of f3] by (simp_all add: f4_def)
  have "extends fs f4"
    using e1(1) e2(1) e3(1) e4(1) extends_trans by blast
  moreover have "dirs f4 = dirs fs"
    using e1(2) e2(2) e3(2) e4(2) by simp
  ultimately show ?thesis by (simp add: r)
qed

lemma writeDefaults_fixed:
  "fst (writeDefaults join ws (fst (writeDefaults join ws fs))) = fst (writeDefaults join ws fs)"
proof -
  define f1 where "f1 = fst (writeIfNotExists (join [ws, ''AGENTS.md'']) defaultAgentsMD fs)"
  define f2 where "f2 = fst (writeIfNotExists (join [ws, ''SOUL.md'']) defaultSoulMD f1)"
  define f3 where "f3 = fst (writeIfNotExists (join [ws, ''memory'', ''MEMORY.md'']) [] f2)"
  define f4 where "f4 = fst (writeIfNotExists (join [ws, ''HEARTBEAT.md'']) [] f3)"
  have r: "fst (writeDefaults join ws fs) = f4"
    by (simp add: writeDefaults_def f1_def f2_def f3_def f4_def split: prod.splits)
  have e2: "extends f1 f2" "dirs f2 = dirs f1"
    using writeIfNotExists_extends[of f1] by (simp_all add: f2_def)
  have e3: "extends f2 f3" "dirs f3 = dirs f2"
    using writeIfNotExists_extends[of f2] by (simp_all add: f3_def)
  have e4: "extends f3 f4" "dirs f4 = dirs f3"
    using writeIfNotExists_extends[of f3] by (simp_all add: f4_def)
  have s1: "settled (join [ws, ''AGENTS.md'']) f4"
  proof -
    have "settled (join [ws, ''AGENTS.md'']) f1"
      unfolding f1_def by (rule writeIfNotExists_settled)
    then have "settled (join [ws, ''AGENTS.md'']) f2"
      using e2 settled_extends by blast
    then have "settled (join [ws, ''AGENTS.md'']) f3"
      using e3 settled_extends by blast
    then show ?thesis
      using e4 settled_extends by blast
  qed
  have s2: "settled (join [ws, ''SOUL.md'']) f4"
  proof -
    have "settled (join [ws, ''SOUL.md'']) f2"
      unfolding f2_def by (rule writeIfNotExists_settled)
    then have "settled (join [ws, ''SOUL.md'']) f3"
      using e3 settled_extends by blast
    then show ?thesis
      using e4 settled_extends by blast
  qed
  have s3: "settled (join [ws, ''memory'', ''MEMORY.md'']) f4"
  proof -
    have "settled (join [ws, ''memory'', ''MEMORY.md'']) f3"
      unfolding f3_def by (rule writeIfNotExists_settled)
    then show ?thesis
      using e4 settled_extends by blast
  qed
  have s4: "settled (join [ws, ''HEARTBEAT.md'']) f4"
    unfolding f4_def by (rule writeIfNotExists_settled)
  have "fst (writeDefaults join ws f4) = f4"
    by (simp add: writeDefaults_def settled_noop[OF s1] settled_noop[OF s2]
        settled_noop[OF s3] settled_noop[OF s4])
  then show ?thesis by (simp add: r)
qed

lemma ensureConfig_Inr:
  assumes "ensureConfig cp dj fs = Inr (fs', outp)"
  shows "extends fs fs' \<and> Stat fs' cp \<noteq> ENOENT"
proof (cases "Stat fs cp = ENOENT")
  case True
  then show ?thesis using assms WriteFile_extends[OF True]
    by (auto simp add: ensureConfig_def split: sum.splits)
next
  case False
  then show ?thesis using assms by (auto simp add: ensureConfig_def extends_refl)
qed

lemma ensureConfig_present:
  "Stat fs cp \<noteq> ENOENT \<Longrightarrow> ensureConfig cp dj fs = Inr (fs, ''Config already exists: '' @ cp @ nl)"
  by (simp add: ensureConfig_def)


lemma runOnboard_extends_fixed:
  assumes run: "runOnboard join cd cp dj lc fs = (x, outp, fs')"
  shows "extends fs fs' \<and> (\<exists>outp'. runOnboard join cd cp dj lc fs' = (x, outp', fs'))"
proof (cases "MkdirAll cd fs")
  case (Inl e)
  with run show ?thesis by (auto simp add: runOnboard_def extends_refl)
next
  case m1: (Inr fs1)
  have x1: "extends fs fs1" and r1: "dirReady cd fs1"
    using MkdirAll_extends[OF m1] MkdirAll_dirReady[OF m1] by simp_all
  show ?thesis
  proof (cases "ensureConfig cp dj fs1")
    case (Inl e)
    with run m1 have "fs' = fs1" "x = ReturnError e"
      by (auto simp add: runOnboard_def)
    moreover have "MkdirAll cd fs1 = Inr fs1" using r1 by (simp add: dirReady_def)
    ultimately show ?thesis using x1 Inl by (simp add: runOnboard_def)
  next
    case (Inr pr)
    obtain fs2 o2 where pr: "pr = (fs2, o2)" by (cases pr)
    note ec = Inr[unfolded pr]
    have x2: "extends fs1 fs2" and p2: "Stat fs2 cp \<noteq> ENOENT"
      using ensureConfig_Inr[OF ec] by simp_all
    have r2: "dirReady cd fs2" using extends_dirReady[OF x2 r1] .
    have x02: "extends fs fs2" using extends_trans[OF x1 x2] .
    show ?thesis
    proof (cases "lc (files fs2 cp)")
      case (Inl e)
      with run m1 ec have "fs' = fs2" "x = NilDereference"
        by (auto simp add: runOnboard_def)
      moreover have "MkdirAll cd fs2 = Inr fs2" using r2 by (simp add: dirReady_def)
      ultimately show ?thesis using x02 Inl ensureConfig_present[OF p2]
        by (simp add: runOnboard_def)
    next
      case lcfg: (Inr cfg)
      show ?thesis
      proof (cases "MkdirAll (join [workspace cfg, ''memory'']) fs2")
        case (Inl e)
        with run m1 ec lcfg have "fs' = fs2" "x = ReturnError (''create workspace: '' @ e)"
          by (auto simp add: runOnboard_def)
        moreover have "MkdirAll cd fs2 = Inr fs2" using r2 by (simp add: dirReady_def)
        ultimately show ?thesis using x02 lcfg Inl ensureConfig_present[OF p2]
          by (simp add: runOnboard_def)
      next
        case m3: (Inr fs3)
        have x3: "extends fs2 fs3" and f3: "files fs3 = files fs2"
          and r3: "dirReady (join [workspace cfg, ''memory'']) fs3"
          using MkdirAll_extends[OF m3] MkdirAll_dirReady[OF m3] by simp_all
        have x03: "extends fs fs3" using extends_trans[OF x02 x3] .
        show ?thesis
        proof (cases "MkdirAll (resolveSkillsDir join cfg) fs3")
          case (Inl e)
          with run m1 ec lcfg m3 have "fs' = fs3" "x = ReturnError (''create skills dir: '' @ e)"
            by (auto simp add: runOnboard_def)
          moreover have "MkdirAll cd fs3 = Inr fs3"
            using extends_dirReady[OF x3 r2] by (simp add: dirReady_def)
          moreover have "ensureConfig cp dj fs3 = Inr (fs3, ''Config already exists: '' @ cp @ nl)"
            using extends_keeps_present[OF x3 p2] ensureConfig_present by simp
          moreover have "MkdirAll (join [workspace cfg, ''memory'']) fs3 = Inr fs3"
            using r3 by (simp add: dirReady_def)
          ultimately show ?thesis using x03 lcfg Inl f3
            by (simp add: runOnboard_def)
        next
          case m4: (Inr fs4)
          have x4: "extends fs3 fs4" and f4: "files fs4 = files fs3"
            and r4: "dirReady (resolveSkillsDir join cfg) fs4"
            using MkdirAll_extends[OF m4] MkdirAll_dirReady[OF m4] by simp_all
          define fs5 where "fs5 = fst (writeDefaults join (workspace cfg) fs4)"
          have x5: "extends fs4 fs5"
            using writeDefaults_extends[of fs4] by (simp add: fs5_def)
          have res: "fs' = fs5" "x = ReturnNil"
            using run m1 ec lcfg m3 m4
            by (auto simp add: runOnboard_def fs5_def split: prod.splits)
          have x25: "extends fs2 fs5"
            using extends_trans[OF extends_trans[OF x3 x4] x5] .
          have "extends fs fs5" using extends_trans[OF x02 x25] .
          moreover have "MkdirAll cd fs5 = Inr fs5"
            using extends_dirReady[OF x25 r2] by (simp add: dirReady_def)
          moreover have "ensureConfig cp dj fs5 = Inr (fs5, ''Config already exists: '' @ cp @ nl)"
            using extends_keeps_present[OF x25 p2] ensureConfig_present by simp
          moreover have "lc (files fs5 cp) = Inr cfg"
            using extends_keeps_present[OF x25 p2] lcfg by simp
          moreover have "MkdirAll (join [workspace cfg, ''memory'']) fs5 = Inr fs5"
            using extends_dirReady[OF extends_trans[OF x4 x5] r3] by (simp add: dirReady_def)
          moreover have "MkdirAll (resolveSkillsDir join cfg) fs5 = Inr fs5"
            using extends_dirReady[OF x5 r4] by (simp add: dirReady_def)
          moreover have "\<exists>o5. writeDefaults join (workspace cfg) fs5 = (fs5, o5)"
            using writeDefaults_fixed[of join "workspace cfg" fs4]
            by (cases "writeDefaults join (workspace cfg) fs5") (simp add: fs5_def)
          ultimately show ?thesis
            by (auto simp add: runOnboard_def res)
        qed
      qed
    qed
  qed
qed

text \<open>
  C9. Whatever file exists before runOnboard has the same content after it: the
  configuration file and the four files of the workspace are written only where
  \<open>os.Stat\<close> reports that nothing exists, and writeIfNotExists leaves a file system alone
  at a path that is a file. Running runOnboard again on the file system that it left
  ends the same way and changes nothing.
\<close>

theorem runOnboard_idempotent:
  assumes "runOnboard join configDir configPath defaultJSON loadConfig fs = (x, outp, fs')"
  shows "(\<forall>p c. files fs p = Some c \<longrightarrow> files fs' p = Some c)
         \<and> (\<forall>p c. files fs p \<noteq> None \<longrightarrow> writeIfNotExists p c fs = (fs, []))
         \<and> (\<exists>outp'. runOnboard join configDir configPath defaultJSON loadConfig fs' = (x, outp', fs'))"
proof (intro conjI allI impI)
  fix p c assume "files fs p = Some c"
  with runOnboard_extends_fixed[OF assms] show "files fs' p = Some c"
    using extends_keeps_file by blast
next
  fix p c assume "files fs p \<noteq> None"
  then have "Stat fs p \<noteq> ENOENT" by (simp add: Stat_ENOENT_iff)
  then show "writeIfNotExists p c fs = (fs, [])" by (simp add: writeIfNotExists_def)
next
  show "\<exists>outp'. runOnboard join configDir configPath defaultJSON loadConfig fs' = (x, outp', fs')"
    using runOnboard_extends_fixed[OF assms] by blast
qed

theorem runOnboard_idempotent_witness:
  "files (snd (snd (runOnboard
       (\<lambda>xs. foldr (\<lambda>x acc. if acc = [] then x else x @ ''/'' @ acc) xs [])
       ''/h/.myclaw'' ''/h/.myclaw/config.json'' ''{}''
       (\<lambda>content. Inr \<lparr>apiKey = [], providerType = [], workspace = ''/h/ws'',
           modelName = ''m'', telegramEnabled = False, feishuEnabled = False,
           wecomEnabled = False, skillsEnabled = True, skillsDir = []\<rparr>)
       \<lparr>files = [''/h/ws/SOUL.md'' \<mapsto> ''mine''], dirs = {''/h'', ''/h/ws''}\<rparr>)))
     ''/h/ws/SOUL.md'' = Some ''mine''"
proof -
  define r where "r = runOnboard
       (\<lambda>xs. foldr (\<lambda>x acc. if acc = [] then x else x @ ''/'' @ acc) xs [])
       ''/h/.myclaw'' ''/h/.myclaw/config.json'' ''{}''
       (\<lambda>content. Inr \<lparr>apiKey = [], providerType = [], workspace = ''/h/ws'',
           modelName = ''m'', telegramEnabled = False, feishuEnabled = False,
           wecomEnabled = False, skillsEnabled = True, skillsDir = []\<rparr>)
       \<lparr>files = [''/h/ws/SOUL.md'' \<mapsto> ''mine''], dirs = {''/h'', ''/h/ws''}\<rparr>"
  have "r = (fst r, fst (snd r), snd (snd r))" by simp
  from runOnboard_idempotent [OF this [unfolded r_def]]
  show ?thesis by simp
qed

section \<open>Properties of the gateway core\<close>

subsection \<open>The invariants hold after every event\<close>

lemma wellFormedI:
  assumes "\<And>k. length (callsInFlight k d) = (if sessionInFlight d k then 1 else 0)"
    and "\<And>k. \<not> sessionInFlight d k \<Longrightarrow> pendingOf d k = []"
    and "\<And>k m. m \<in> set (pendingOf d k) \<Longrightarrow> sessionKeyOf m = k"
  shows "wellFormed d"
  unfolding wellFormed_def using assms by blast

lemma wellFormed_calls:
  "wellFormed d \<Longrightarrow> length (callsInFlight k d) = (if sessionInFlight d k then 1 else 0)"
  unfolding wellFormed_def by blast

lemma wellFormed_idle: "wellFormed d \<Longrightarrow> \<not> sessionInFlight d k \<Longrightarrow> pendingOf d k = []"
  unfolding wellFormed_def by blast

lemma wellFormed_pending: "wellFormed d \<Longrightarrow> m \<in> set (pendingOf d k) \<Longrightarrow> sessionKeyOf m = k"
  unfolding wellFormed_def by blast

lemma wellFormed_initial: "wellFormed initial"
  by (simp add: wellFormed_def initial_def callsInFlight_def sessionInFlight_def pendingOf_def)

subsubsection \<open>Starting a call\<close>

lemma callsInFlight_invoke:
  "callsInFlight k' (invoke cfg k s m d) =
     callsInFlight k' d @
       (if sessionKeyOf m = k'
        then [\<lparr>callMessage = m,
               callRequest = \<lparr>Prompt = msgText m, SessionID = reasoningSessionID s\<rparr>,
               callAttempt = 1\<rparr>]
        else [])"
  by (simp add: callsInFlight_def invoke_def Let_def)

lemma sessionInFlight_invoke:
  "sessionInFlight (invoke cfg k s m d) k' = (if k' = k then True else sessionInFlight d k')"
  by (simp add: sessionInFlight_def invoke_def Let_def)

lemma pendingOf_invoke:
  "pendingOf (invoke cfg k s m d) k' = (if k' = k then pending s else pendingOf d k')"
  by (simp add: pendingOf_def invoke_def Let_def)

lemma delivered_invoke:
  "delivered k' (invoke cfg k s m d) = delivered k' d @ (if sessionKeyOf m = k' then [m] else [])"
  by (simp add: delivered_def deliveredAll_def invoke_def Let_def)

lemma recentlySeen_invoke: "recentlySeen (invoke cfg k s m d) = recentlySeen d"
  by (simp add: invoke_def Let_def)

subsubsection \<open>Dispatching a Message\<close>

lemma getOrCreate_flag: "inFlight (getOrCreate cfg now k d) = sessionInFlight d k"
  by (simp add: getOrCreate_def sessionInFlight_def split: option.splits)

lemma getOrCreate_pending: "pending (getOrCreate cfg now k d) = pendingOf d k"
  by (simp add: getOrCreate_def pendingOf_def split: option.splits)

lemma callsInFlight_dispatch:
  "callsInFlight k (dispatch cfg now m d) =
     (if sessionInFlight d (sessionKeyOf m) then callsInFlight k d
      else callsInFlight k (invoke cfg (sessionKeyOf m) (getOrCreate cfg now (sessionKeyOf m) d) m d))"
  by (simp add: dispatch_def Let_def getOrCreate_flag callsInFlight_def)

lemma sessionInFlight_dispatch:
  "sessionInFlight (dispatch cfg now m d) k = (if k = sessionKeyOf m then True else sessionInFlight d k)"
proof (cases "sessionInFlight d (sessionKeyOf m)")
  case True
  then have "inFlight (getOrCreate cfg now (sessionKeyOf m) d)" by (simp add: getOrCreate_flag)
  then show ?thesis by (simp add: dispatch_def Let_def sessionInFlight_def)
next
  case False
  then show ?thesis by (simp add: dispatch_def Let_def getOrCreate_flag sessionInFlight_invoke)
qed

lemma pendingOf_dispatch:
  "pendingOf (dispatch cfg now m d) k =
     (if k = sessionKeyOf m
      then (if sessionInFlight d k then pendingOf d k @ [m] else pendingOf d k)
      else pendingOf d k)"
  by (simp add: dispatch_def Let_def getOrCreate_flag pendingOf_invoke getOrCreate_pending)
     (simp add: pendingOf_def)

lemma delivered_dispatch:
  "delivered k (dispatch cfg now m d) =
     (if sessionInFlight d (sessionKeyOf m) then delivered k d
      else delivered k d @ (if sessionKeyOf m = k then [m] else []))"
  by (simp add: dispatch_def Let_def getOrCreate_flag delivered_invoke)
     (simp add: delivered_def deliveredAll_def)

lemma wellFormed_seen: "wellFormed (d\<lparr>recentlySeen := r\<rparr>) = wellFormed d"
  by (simp add: wellFormed_def callsInFlight_def sessionInFlight_def pendingOf_def)

lemma wellFormed_dispatch:
  assumes "wellFormed d"
  shows "wellFormed (dispatch cfg now m d)"
proof (rule wellFormedI)
  fix k
  show "length (callsInFlight k (dispatch cfg now m d))
          = (if sessionInFlight (dispatch cfg now m d) k then 1 else 0)"
    using wellFormed_calls[OF assms, of k]
    by (auto simp add: callsInFlight_dispatch callsInFlight_invoke sessionInFlight_dispatch)
next
  fix k assume "\<not> sessionInFlight (dispatch cfg now m d) k"
  then show "pendingOf (dispatch cfg now m d) k = []"
    using wellFormed_idle[OF assms, of k]
    by (auto simp add: sessionInFlight_dispatch pendingOf_dispatch split: if_splits)
next
  fix k m' assume "m' \<in> set (pendingOf (dispatch cfg now m d) k)"
  then show "sessionKeyOf m' = k"
    using wellFormed_pending[OF assms, of m' k]
    by (auto simp add: pendingOf_dispatch split: if_splits)
qed

lemma wellFormed_intake:
  assumes "wellFormed d"
  shows "wellFormed (intake cfg now m d)"
  using assms by (simp add: intake_def wellFormed_dispatch wellFormed_seen)


subsubsection \<open>Step 6\<close>

lemma callsInFlight_complete:
  "callsInFlight k' (complete cfg k d) =
     (case pendingOf d k of
        [] \<Rightarrow> callsInFlight k' d
      | m # rest \<Rightarrow>
          (case sessions d k of
             None \<Rightarrow> callsInFlight k' d
           | Some s \<Rightarrow> callsInFlight k' (invoke cfg k (s\<lparr>pending := rest\<rparr>) m d)))"
  by (simp add: complete_def pendingOf_def callsInFlight_def split: option.splits list.splits)

lemma sessionInFlight_complete:
  "sessionInFlight (complete cfg k d) k' =
     (if k' = k then sessions d k \<noteq> None \<and> pendingOf d k \<noteq> [] else sessionInFlight d k')"
proof (cases "sessions d k")
  case None
  then show ?thesis by (simp add: complete_def sessionInFlight_def pendingOf_def)
next
  case (Some s)
  show ?thesis
  proof (cases "pending s")
    case Nil
    with Some show ?thesis by (simp add: complete_def sessionInFlight_def pendingOf_def)
  next
    case (Cons m rest)
    with Some show ?thesis by (simp add: complete_def sessionInFlight_invoke pendingOf_def)
  qed
qed

lemma pendingOf_complete:
  "pendingOf (complete cfg k d) k' = (if k' = k then tl (pendingOf d k) else pendingOf d k')"
proof (cases "sessions d k")
  case None
  then show ?thesis by (simp add: complete_def pendingOf_def)
next
  case (Some s)
  show ?thesis
  proof (cases "pending s")
    case Nil
    with Some show ?thesis by (simp add: complete_def pendingOf_def)
  next
    case (Cons m rest)
    with Some have "pendingOf d k = m # rest" by (simp add: pendingOf_def)
    with Some Cons show ?thesis by (simp add: complete_def pendingOf_invoke)
  qed
qed

lemma delivered_complete:
  "delivered k' (complete cfg k d) =
     delivered k' d @ (case pendingOf d k of [] \<Rightarrow> [] | m # rest \<Rightarrow> if sessionKeyOf m = k' then [m] else [])"
  by (simp add: complete_def pendingOf_def delivered_invoke split: option.splits list.splits)
     (simp add: delivered_def deliveredAll_def)

lemma recentlySeen_complete: "recentlySeen (complete cfg k d) = recentlySeen d"
  by (simp add: complete_def recentlySeen_invoke split: option.splits list.splits)

text \<open>
  A state between the end of a call and step 6: the call of session \<open>k\<close> has been taken
  out of the calls in flight, the flag of the session is still set.
\<close>

lemma wellFormed_complete:
  assumes others: "\<And>k'. k' \<noteq> k \<Longrightarrow> length (callsInFlight k' d) = (if sessionInFlight d k' then 1 else 0)"
    and none: "callsInFlight k d = []"
    and idle: "\<And>k'. k' \<noteq> k \<Longrightarrow> \<not> sessionInFlight d k' \<Longrightarrow> pendingOf d k' = []"
    and keys: "\<And>k' m. m \<in> set (pendingOf d k') \<Longrightarrow> sessionKeyOf m = k'"
  shows "wellFormed (complete cfg k d)"
proof (rule wellFormedI)
  fix k'
  show "length (callsInFlight k' (complete cfg k d))
          = (if sessionInFlight (complete cfg k d) k' then 1 else 0)"
  proof (cases "pendingOf d k")
    case Nil
    then show ?thesis using others[of k'] none
      by (cases "k' = k") (simp_all add: callsInFlight_complete sessionInFlight_complete)
  next
    case (Cons m rest)
    then have km: "sessionKeyOf m = k" using keys[of m k] by simp
    from Cons obtain s where s: "sessions d k = Some s"
      by (auto simp add: pendingOf_def split: option.splits)
    show ?thesis using others[of k'] none Cons km s
      by (cases "k' = k")
         (simp_all add: callsInFlight_complete sessionInFlight_complete callsInFlight_invoke)
  qed
next
  fix k' assume a: "\<not> sessionInFlight (complete cfg k d) k'"
  show "pendingOf (complete cfg k d) k' = []"
  proof (cases "k' = k")
    case True
    with a have "sessions d k = None \<or> pendingOf d k = []"
      by (simp add: sessionInFlight_complete)
    then have "pendingOf d k = []" by (auto simp add: pendingOf_def)
    with True show ?thesis by (simp add: pendingOf_complete)
  next
    case False
    with a idle[of k'] show ?thesis
      by (simp add: sessionInFlight_complete pendingOf_complete)
  qed
next
  fix k' m assume "m \<in> set (pendingOf (complete cfg k d) k')"
  then show "sessionKeyOf m = k'"
    using keys[of m k']
    by (cases "pendingOf d k") (auto simp add: pendingOf_complete split: if_splits)
qed

subsubsection \<open>The end of a backend call\<close>

lemma currentCall_Some:
  assumes "currentCall k d = Some c"
  shows "c \<in> set (running d)" and "sessionKeyOf (callMessage c) = k"
    and "c \<in> set (callsInFlight k d)"
  using assms by (auto simp add: currentCall_def callsInFlight_def find_Some_iff)

lemma callsInFlight_remove:
  "callsInFlight k' (d\<lparr>running := remove1 c (running d), history := h\<rparr>)
     = remove1 c (callsInFlight k' d)"
  by (simp add: callsInFlight_def filter_remove1)

lemma callsInFlight_touch: "callsInFlight k' (touch now k d) = callsInFlight k' d"
  by (simp add: touch_def callsInFlight_def split: option.splits)

lemma sessionInFlight_touch: "sessionInFlight (touch now k d) k' = sessionInFlight d k'"
  by (simp add: touch_def sessionInFlight_def split: option.splits)

lemma pendingOf_touch: "pendingOf (touch now k d) k' = pendingOf d k'"
  by (simp add: touch_def pendingOf_def split: option.splits)

lemma delivered_touch: "delivered k' (touch now k d) = delivered k' d"
  by (simp add: touch_def delivered_def deliveredAll_def split: option.splits)

lemma recentlySeen_touch: "recentlySeen (touch now k d) = recentlySeen d"
  by (simp add: touch_def split: option.splits)

lemma sessionInFlight_running:
  "sessionInFlight (d\<lparr>running := r, history := h\<rparr>) k = sessionInFlight d k"
  by (simp add: sessionInFlight_def)

lemma pendingOf_running: "pendingOf (d\<lparr>running := r, history := h\<rparr>) k = pendingOf d k"
  by (simp add: pendingOf_def)

lemma removed_call:
  assumes wf: "wellFormed d" and c: "currentCall k d = Some c"
  shows "remove1 c (callsInFlight k d) = []"
    and "k' \<noteq> k \<Longrightarrow> remove1 c (callsInFlight k' d) = callsInFlight k' d"
    and "sessionInFlight d k"
proof -
  have len: "length (callsInFlight k d) = (if sessionInFlight d k then 1 else 0)"
    using wf by (rule wellFormed_calls)
  have mem: "c \<in> set (callsInFlight k d)" using c by (rule currentCall_Some)
  from mem len show fl: "sessionInFlight d k" by (auto split: if_splits)
  with len have "length (callsInFlight k d) = 1" by simp
  with mem have "callsInFlight k d = [c]"
    by (cases "callsInFlight k d") auto
  then show "remove1 c (callsInFlight k d) = []" by simp
  show "remove1 c (callsInFlight k' d) = callsInFlight k' d" if "k' \<noteq> k"
  proof -
    have "c \<notin> set (callsInFlight k' d)"
      using currentCall_Some(2)[OF c] that by (auto simp add: callsInFlight_def)
    then show ?thesis by (rule remove1_idem)
  qed
qed

lemma wellFormed_finished:
  assumes wf: "wellFormed d" and c: "currentCall k d = Some c"
  shows "wellFormed (complete cfg k (touch now k (d\<lparr>running := remove1 c (running d), history := h\<rparr>)))"
    and "wellFormed (complete cfg k (d\<lparr>running := remove1 c (running d), history := h\<rparr>))"
proof -
  let ?d = "d\<lparr>running := remove1 c (running d), history := h\<rparr>"
  have o: "length (callsInFlight k' ?d) = (if sessionInFlight ?d k' then 1 else 0)" if "k' \<noteq> k" for k'
    using wellFormed_calls[OF wf, of k'] removed_call(2)[OF wf c that]
    by (simp add: callsInFlight_remove sessionInFlight_running)
  have n: "callsInFlight k ?d = []"
    using removed_call(1)[OF wf c] by (simp add: callsInFlight_remove)
  have i: "pendingOf ?d k' = []" if "\<not> sessionInFlight ?d k'" for k'
    using wellFormed_idle[OF wf, of k'] that by (simp add: pendingOf_running sessionInFlight_running)
  have p: "sessionKeyOf m = k'" if "m \<in> set (pendingOf ?d k')" for k' m
    using wellFormed_pending[OF wf, of m k'] that by (simp add: pendingOf_running)
  show "wellFormed (complete cfg k ?d)"
    by (rule wellFormed_complete) (use o n i p in auto)
  show "wellFormed (complete cfg k (touch now k ?d))"
    by (rule wellFormed_complete)
       (use o n i p in \<open>auto simp add: callsInFlight_touch sessionInFlight_touch pendingOf_touch\<close>)
qed

lemma wellFormed_onSuccess:
  assumes "wellFormed d"
  shows "wellFormed (onSuccess cfg now k reply d)"
  using assms wellFormed_finished(1)[OF assms]
  by (simp add: onSuccess_def split: option.splits)

lemma wellFormed_retry:
  assumes wf: "wellFormed d" and c: "currentCall k d = Some c"
  shows "wellFormed (d\<lparr>running := remove1 c (running d) @ [c\<lparr>callAttempt := n\<rparr>], history := h\<rparr>)"
proof (rule wellFormedI)
  fix k'
  let ?d = "d\<lparr>running := remove1 c (running d) @ [c\<lparr>callAttempt := n\<rparr>], history := h\<rparr>"
  have eq: "callsInFlight k' ?d = remove1 c (callsInFlight k' d)
      @ (if k' = k then [c\<lparr>callAttempt := n\<rparr>] else [])"
    using currentCall_Some(2)[OF c] by (auto simp add: callsInFlight_def filter_remove1)
  show "length (callsInFlight k' ?d) = (if sessionInFlight ?d k' then 1 else 0)"
    using eq wellFormed_calls[OF wf, of k'] removed_call(1)[OF wf c]
      removed_call(2)[OF wf c, of k'] removed_call(3)[OF wf c]
    by (cases "k' = k") (simp_all add: sessionInFlight_def)
next
  fix k' assume "\<not> sessionInFlight (d\<lparr>running := remove1 c (running d) @ [c\<lparr>callAttempt := n\<rparr>], history := h\<rparr>) k'"
  then show "pendingOf (d\<lparr>running := remove1 c (running d) @ [c\<lparr>callAttempt := n\<rparr>], history := h\<rparr>) k' = []"
    using wellFormed_idle[OF wf, of k'] by (simp add: pendingOf_def sessionInFlight_def)
next
  fix k' m assume "m \<in> set (pendingOf (d\<lparr>running := remove1 c (running d) @ [c\<lparr>callAttempt := n\<rparr>], history := h\<rparr>) k')"
  then show "sessionKeyOf m = k'"
    using wellFormed_pending[OF wf, of m k'] by (simp add: pendingOf_def)
qed

lemma wellFormed_onFailure:
  assumes "wellFormed d"
  shows "wellFormed (onFailure cfg now k d)"
  using assms wellFormed_finished(2)[OF assms] wellFormed_retry[OF assms]
  by (simp add: onFailure_def split: option.splits)

lemma wellFormed_evictExpired:
  assumes wf: "wellFormed d"
  shows "wellFormed (evictExpired cfg now d)"
proof (rule wellFormedI)
  fix k
  show "length (callsInFlight k (evictExpired cfg now d))
          = (if sessionInFlight (evictExpired cfg now d) k then 1 else 0)"
    using wellFormed_calls[OF wf, of k]
    by (auto simp add: evictExpired_def callsInFlight_def sessionInFlight_def split: option.splits)
next
  fix k assume "\<not> sessionInFlight (evictExpired cfg now d) k"
  then show "pendingOf (evictExpired cfg now d) k = []"
    using wellFormed_idle[OF wf, of k]
    by (auto simp add: evictExpired_def pendingOf_def sessionInFlight_def split: option.splits if_splits)
next
  fix k m assume "m \<in> set (pendingOf (evictExpired cfg now d) k)"
  then show "sessionKeyOf m = k"
    using wellFormed_pending[OF wf, of m k]
    by (auto simp add: evictExpired_def pendingOf_def split: option.splits if_splits)
qed

lemma wellFormed_step: "wellFormed d \<Longrightarrow> wellFormed (step cfg d ev)"
  by (cases ev)
     (simp_all add: wellFormed_intake wellFormed_onSuccess wellFormed_onFailure wellFormed_evictExpired)

lemma wellFormed_foldl: "wellFormed d \<Longrightarrow> wellFormed (foldl (step cfg) d evs)"
  by (induction evs arbitrary: d) (simp_all add: wellFormed_step)

lemma wellFormed_runDispatcher: "wellFormed (runDispatcher cfg evs)"
  by (simp add: runDispatcher_def wellFormed_foldl wellFormed_initial)

lemma attemptsCounted_initial: "attemptsCounted initial"
  by (simp add: attemptsCounted_def initial_def)

lemma attemptsCounted_invoke: "attemptsCounted d \<Longrightarrow> attemptsCounted (invoke cfg k s m d)"
  by (simp add: attemptsCounted_def invoke_def Let_def)

lemma attemptsCounted_complete: "attemptsCounted d \<Longrightarrow> attemptsCounted (complete cfg k d)"
  by (auto simp add: complete_def attemptsCounted_invoke split: option.splits list.splits)
     (simp add: attemptsCounted_def)

lemma attemptsCounted_remove:
  "attemptsCounted d \<Longrightarrow> attemptsCounted (d\<lparr>running := remove1 c (running d), history := h\<rparr>)"
  by (auto simp add: attemptsCounted_def dest: notin_set_remove1)

lemma attemptsCounted_touch: "attemptsCounted (touch now k d) = attemptsCounted d"
  by (simp add: touch_def attemptsCounted_def split: option.splits)

lemma attemptsCounted_step: "attemptsCounted d \<Longrightarrow> attemptsCounted (step cfg d ev)"
proof (cases ev)
  case (Arrive now m)
  assume a: "attemptsCounted d"
  then have "attemptsCounted (d\<lparr>recentlySeen := (recentlySeen d)(idempotencyKey m \<mapsto> now)\<rparr>)"
    by (simp add: attemptsCounted_def)
  then have "attemptsCounted (dispatch cfg now m (d\<lparr>recentlySeen := (recentlySeen d)(idempotencyKey m \<mapsto> now)\<rparr>))"
    by (auto simp add: dispatch_def Let_def attemptsCounted_invoke) (simp add: attemptsCounted_def)
  with a Arrive show ?thesis by (simp add: intake_def)
next
  case (BackendOk now k reply)
  assume "attemptsCounted d"
  with BackendOk show ?thesis
    by (simp add: onSuccess_def attemptsCounted_complete attemptsCounted_touch attemptsCounted_remove
        split: option.splits)
next
  case (BackendFailed now k)
  assume a: "attemptsCounted d"
  have "attemptsCounted (d\<lparr>running := remove1 c (running d) @ [c\<lparr>callAttempt := Suc n\<rparr>], history := h\<rparr>)"
    for c n h
    using a by (auto simp add: attemptsCounted_def dest: notin_set_remove1)
  with a BackendFailed show ?thesis
    by (simp add: onFailure_def attemptsCounted_complete attemptsCounted_remove split: option.splits)
next
  case (EvictExpired now)
  assume "attemptsCounted d"
  with EvictExpired show ?thesis by (simp add: evictExpired_def attemptsCounted_def)
qed

subsection \<open>Delivered and pending Messages\<close>

lemma delivered_history_Send:
  "delivered k (d\<lparr>running := r, history := history d @ [AdapterSend ch conv t]\<rparr>) = delivered k d"
  by (simp add: delivered_def deliveredAll_def)

lemma delivered_history_fallback:
  "delivered k (d\<lparr>running := r, history := history d @ [AdapterSend ch conv t, LogFailure m]\<rparr>)
     = delivered k d"
  by (simp add: delivered_def deliveredAll_def)

lemma delivered_history_retry:
  "delivered k (d\<lparr>running := r, history := history d @ [BackendRun c q m (Suc a)]\<rparr>)
     = delivered k d @ (if a = 0 \<and> sessionKeyOf m = k then [m] else [])"
  by (simp add: delivered_def deliveredAll_def)

lemma delivered_seen: "delivered k (d\<lparr>recentlySeen := r\<rparr>) = delivered k d"
  by (simp add: delivered_def deliveredAll_def)

lemma pendingOf_seen: "pendingOf (d\<lparr>recentlySeen := r\<rparr>) k = pendingOf d k"
  by (simp add: pendingOf_def)

lemma sessionInFlight_seen: "sessionInFlight (d\<lparr>recentlySeen := r\<rparr>) k = sessionInFlight d k"
  by (simp add: sessionInFlight_def)

lemma fifo_finished:
  assumes wf: "wellFormed d" and c: "currentCall k0 d = Some c"
    and d': "pendingOf d' = pendingOf d" "delivered k d' = delivered k d"
  shows "delivered k (complete cfg k0 d') @ pendingOf (complete cfg k0 d') k
           = delivered k d @ pendingOf d k"
proof (cases "pendingOf d k0")
  case Nil
  then show ?thesis using d' by (simp add: delivered_complete pendingOf_complete)
next
  case (Cons m rest)
  then have "sessionKeyOf m = k0" using wellFormed_pending[OF wf, of m k0] by simp
  with Cons show ?thesis using d' by (auto simp add: delivered_complete pendingOf_complete)
qed

lemma fifo_step:
  assumes wf: "wellFormed d" and ac: "attemptsCounted d"
  shows "delivered k (step cfg d ev) @ pendingOf (step cfg d ev) k
           = delivered k d @ pendingOf d k
             @ filter (\<lambda>m. sessionKeyOf m = k) (accepted cfg (recentlySeen d) [ev])"
proof (cases ev)
  case (Arrive now m)
  show ?thesis
  proof (cases "isDuplicate cfg now (recentlySeen d) m")
    case True
    with Arrive show ?thesis by (simp add: intake_def)
  next
    case False
    show ?thesis
    proof (cases "sessionInFlight d (sessionKeyOf m)")
      case True
      with False Arrive show ?thesis
        by (simp add: intake_def delivered_dispatch pendingOf_dispatch delivered_seen
            pendingOf_seen sessionInFlight_seen)
    next
      case idle: False
      then have "pendingOf d (sessionKeyOf m) = []" using wf by (rule wellFormed_idle[rotated])
      with idle False Arrive show ?thesis
        by (auto simp add: intake_def delivered_dispatch pendingOf_dispatch delivered_seen
            pendingOf_seen sessionInFlight_seen)
    qed
  qed
next
  case (BackendOk now k0 reply)
  show ?thesis
  proof (cases "currentCall k0 d")
    case None
    with BackendOk show ?thesis by (simp add: onSuccess_def)
  next
    case (Some c)
    let ?d = "touch now k0 (d\<lparr>running := remove1 c (running d),
      history := history d @ [AdapterSend (channel (callMessage c))
        (externalConversationID (callMessage c)) reply]\<rparr>)"
    have "delivered k (complete cfg k0 ?d) @ pendingOf (complete cfg k0 ?d) k
            = delivered k d @ pendingOf d k"
      by (rule fifo_finished[OF wf Some])
         (simp_all add: pendingOf_touch pendingOf_running delivered_touch delivered_history_Send
            fun_eq_iff)
    with Some BackendOk show ?thesis by (simp add: onSuccess_def)
  qed
next
  case (BackendFailed now k0)
  show ?thesis
  proof (cases "currentCall k0 d")
    case None
    with BackendFailed show ?thesis by (simp add: onFailure_def)
  next
    case (Some c)
    have pos: "0 < callAttempt c"
      using ac currentCall_Some(1)[OF Some] by (simp add: attemptsCounted_def)
    show ?thesis
    proof (cases "callAttempt c < retryBound cfg")
      case True
      with Some BackendFailed pos show ?thesis
        by (simp add: onFailure_def delivered_history_retry pendingOf_def)
    next
      case False
      let ?d = "d\<lparr>running := remove1 c (running d),
        history := history d @ [AdapterSend (channel (callMessage c))
          (externalConversationID (callMessage c)) (fallbackText cfg), LogFailure (callMessage c)]\<rparr>"
      have "delivered k (complete cfg k0 ?d) @ pendingOf (complete cfg k0 ?d) k
              = delivered k d @ pendingOf d k"
        by (rule fifo_finished[OF wf Some])
           (simp_all add: pendingOf_running delivered_history_fallback fun_eq_iff)
      with False Some BackendFailed show ?thesis by (simp add: onFailure_def)
    qed
  qed
next
  case (EvictExpired now)
  have "pendingOf (evictExpired cfg now d) k = pendingOf d k"
    using wellFormed_idle[OF wf, of k]
    by (auto simp add: evictExpired_def pendingOf_def sessionInFlight_def split: option.splits)
  moreover have "delivered k (evictExpired cfg now d) = delivered k d"
    by (simp add: evictExpired_def delivered_def deliveredAll_def)
  ultimately show ?thesis using EvictExpired by simp
qed

lemma recentlySeen_step:
  "recentlySeen (step cfg d ev) =
     (case ev of
        Arrive now m \<Rightarrow>
          if isDuplicate cfg now (recentlySeen d) m then recentlySeen d
          else (recentlySeen d)(idempotencyKey m \<mapsto> now)
      | _ \<Rightarrow> recentlySeen d)"
proof (cases ev)
  case (Arrive now m)
  then show ?thesis
    by (simp add: intake_def dispatch_def Let_def recentlySeen_invoke)
next
  case (BackendOk now k reply)
  then show ?thesis
    by (simp add: onSuccess_def recentlySeen_complete recentlySeen_touch split: option.splits)
next
  case (BackendFailed now k)
  then show ?thesis
    by (simp add: onFailure_def recentlySeen_complete split: option.splits)
next
  case (EvictExpired now)
  then show ?thesis by (simp add: evictExpired_def)
qed

lemma accepted_Cons:
  "accepted cfg (recentlySeen d) (ev # evs)
     = accepted cfg (recentlySeen d) [ev] @ accepted cfg (recentlySeen (step cfg d ev)) evs"
  using recentlySeen_step[of cfg d ev] by (cases ev) auto

lemma fifo_foldl:
  assumes "wellFormed d" and "attemptsCounted d"
  shows "delivered k (foldl (step cfg) d evs) @ pendingOf (foldl (step cfg) d evs) k
           = delivered k d @ pendingOf d k
             @ filter (\<lambda>m. sessionKeyOf m = k) (accepted cfg (recentlySeen d) evs)"
  using assms
proof (induction evs arbitrary: d)
  case Nil
  then show ?case by simp
next
  case (Cons ev evs)
  have "delivered k (foldl (step cfg) (step cfg d ev) evs)
          @ pendingOf (foldl (step cfg) (step cfg d ev) evs) k
        = delivered k (step cfg d ev) @ pendingOf (step cfg d ev) k
          @ filter (\<lambda>m. sessionKeyOf m = k) (accepted cfg (recentlySeen (step cfg d ev)) evs)"
    by (rule Cons.IH) (simp_all add: wellFormed_step attemptsCounted_step Cons.prems)
  also have "\<dots> = (delivered k d @ pendingOf d k
          @ filter (\<lambda>m. sessionKeyOf m = k) (accepted cfg (recentlySeen d) [ev]))
          @ filter (\<lambda>m. sessionKeyOf m = k) (accepted cfg (recentlySeen (step cfg d ev)) evs)"
    using fifo_step[OF Cons.prems, of k cfg ev] by simp
  finally show ?case
    by (simp add: accepted_Cons[of cfg d ev evs])
qed

lemma fifo_runDispatcher:
  "delivered k (runDispatcher cfg evs) @ pendingOf (runDispatcher cfg evs) k
     = filter (\<lambda>m. sessionKeyOf m = k) (accepted cfg Map.empty evs)"
  using fifo_foldl[OF wellFormed_initial attemptsCounted_initial, of k cfg evs]
  by (simp add: runDispatcher_def) (simp add: initial_def delivered_def deliveredAll_def pendingOf_def)

subsection \<open>One call per session, first in first out\<close>

lemma queued_while_in_flight:
  assumes "sessionInFlight d (sessionKeyOf m)" and "\<not> isDuplicate cfg now (recentlySeen d) m"
  shows "pendingOf (step cfg d (Arrive now m)) (sessionKeyOf m) = pendingOf d (sessionKeyOf m) @ [m]"
    and "running (step cfg d (Arrive now m)) = running d"
    and "history (step cfg d (Arrive now m)) = history d"
  using assms
  by (simp_all add: intake_def pendingOf_dispatch pendingOf_seen sessionInFlight_seen)
     (simp_all add: dispatch_def Let_def getOrCreate_flag sessionInFlight_seen)

text \<open>
  C1. After any sequence of events a session key has at most one backend call in flight,
  and it has one exactly when the inFlight flag of its session is set. A Message that
  arrives for a key with a call in flight, and that the deduplication does not discard
  as an exact duplicate, is appended to the pending queue of that session; no backend
  call is started and nothing else is done.
\<close>

theorem dispatcher_one_call_per_session:
  "length (callsInFlight k (runDispatcher cfg evs)) \<le> 1
   \<and> (callsInFlight k (runDispatcher cfg evs) \<noteq> [] \<longleftrightarrow> sessionInFlight (runDispatcher cfg evs) k)
   \<and> (callsInFlight (sessionKeyOf m) (runDispatcher cfg evs) \<noteq> []
        \<and> \<not> isDuplicate cfg now (recentlySeen (runDispatcher cfg evs)) m
      \<longrightarrow> pendingOf (runDispatcher cfg (evs @ [Arrive now m])) (sessionKeyOf m)
            = pendingOf (runDispatcher cfg evs) (sessionKeyOf m) @ [m]
          \<and> running (runDispatcher cfg (evs @ [Arrive now m])) = running (runDispatcher cfg evs)
          \<and> history (runDispatcher cfg (evs @ [Arrive now m])) = history (runDispatcher cfg evs))"
proof -
  let ?d = "runDispatcher cfg evs"
  have wf: "wellFormed ?d" by (rule wellFormed_runDispatcher)
  have len: "length (callsInFlight k' ?d) = (if sessionInFlight ?d k' then 1 else 0)" for k'
    using wf by (rule wellFormed_calls)
  have a: "length (callsInFlight k ?d) \<le> 1" by (simp add: len)
  have b: "callsInFlight k' ?d \<noteq> [] \<longleftrightarrow> sessionInFlight ?d k'" for k'
    using len[of k'] by (auto split: if_splits)
  have s: "runDispatcher cfg (evs @ [Arrive now m]) = step cfg ?d (Arrive now m)"
    by (simp add: runDispatcher_def)
  have c: "pendingOf (runDispatcher cfg (evs @ [Arrive now m])) (sessionKeyOf m)
            = pendingOf ?d (sessionKeyOf m) @ [m]
          \<and> running (runDispatcher cfg (evs @ [Arrive now m])) = running ?d
          \<and> history (runDispatcher cfg (evs @ [Arrive now m])) = history ?d"
    if "callsInFlight (sessionKeyOf m) ?d \<noteq> []"
      and "\<not> isDuplicate cfg now (recentlySeen ?d) m"
    using queued_while_in_flight[of ?d m cfg now] that b[of "sessionKeyOf m"]
    unfolding s by blast
  from a b[of k] c show ?thesis by blast
qed

theorem dispatcher_one_call_per_session_witness:
  "pendingOf (runDispatcher
       \<lparr>dedupWindow = 10, retryBound = 3, callTimeout = 30, idleTTL = 100,
        fallbackText = ''try again later'', newSessionID = (\<lambda>k. snd k)\<rparr>
       [Arrive 1 \<lparr>channel = Telegram, externalConversationID = ''c1'', externalSenderID = ''u'',
                  msgText = ''a'', receivedAt = 1, idempotencyKey = ''1'', rawPayloadRef = []\<rparr>,
        Arrive 2 \<lparr>channel = Telegram, externalConversationID = ''c1'', externalSenderID = ''u'',
                  msgText = ''b'', receivedAt = 2, idempotencyKey = ''2'', rawPayloadRef = []\<rparr>])
     (Telegram, ''c1'')
   = [\<lparr>channel = Telegram, externalConversationID = ''c1'', externalSenderID = ''u'',
       msgText = ''b'', receivedAt = 2, idempotencyKey = ''2'', rawPayloadRef = []\<rparr>]"
proof -
  let ?cfg = "\<lparr>dedupWindow = 10, retryBound = 3, callTimeout = 30, idleTTL = 100,
    fallbackText = ''try again later'', newSessionID = (\<lambda>k. snd k)\<rparr>"
  let ?a = "\<lparr>channel = Telegram, externalConversationID = ''c1'', externalSenderID = ''u'',
    msgText = ''a'', receivedAt = 1, idempotencyKey = ''1'', rawPayloadRef = []\<rparr>"
  let ?b = "\<lparr>channel = Telegram, externalConversationID = ''c1'', externalSenderID = ''u'',
    msgText = ''b'', receivedAt = 2, idempotencyKey = ''2'', rawPayloadRef = []\<rparr>"
  have k: "sessionKeyOf ?b = (Telegram, ''c1'')"
    by (simp add: sessionKeyOf_def)
  have busy: "callsInFlight (sessionKeyOf ?b) (runDispatcher ?cfg [Arrive 1 ?a]) \<noteq> []"
    by code_simp
  have fresh: "\<not> isDuplicate ?cfg 2 (recentlySeen (runDispatcher ?cfg [Arrive 1 ?a])) ?b"
    by code_simp
  have empty: "pendingOf (runDispatcher ?cfg [Arrive 1 ?a]) (Telegram, ''c1'') = []"
    by code_simp
  from dispatcher_one_call_per_session [of "(Telegram, ''c1'')" ?cfg "[Arrive 1 ?a]" ?b 2]
    busy fresh
  have "pendingOf (runDispatcher ?cfg ([Arrive 1 ?a] @ [Arrive 2 ?b])) (sessionKeyOf ?b)
          = pendingOf (runDispatcher ?cfg [Arrive 1 ?a]) (sessionKeyOf ?b) @ [?b]"
    by blast
  then show ?thesis unfolding k empty by simp
qed

text \<open>
  C2. For every session key the Messages delivered to the backend so far, followed by the
  Messages still pending, are the Messages of that key that arrived and passed the
  deduplication, in their order of arrival; once the session is idle all of them have
  been delivered. Across session keys the order of delivery need not be the order of
  arrival: there is a run that delivers the same Messages in another order.
\<close>

theorem dispatcher_fifo_per_session:
  "delivered k (runDispatcher cfg evs) @ pendingOf (runDispatcher cfg evs) k
     = filter (\<lambda>m. sessionKeyOf m = k) (accepted cfg Map.empty evs)
   \<and> (\<not> sessionInFlight (runDispatcher cfg evs) k
        \<longrightarrow> delivered k (runDispatcher cfg evs)
              = filter (\<lambda>m. sessionKeyOf m = k) (accepted cfg Map.empty evs))
   \<and> (\<exists>cfg' evs'. set (deliveredAll (runDispatcher cfg' evs')) = set (accepted cfg' Map.empty evs')
         \<and> deliveredAll (runDispatcher cfg' evs') \<noteq> accepted cfg' Map.empty evs')"
proof -
  have "\<not> sessionInFlight (runDispatcher cfg evs) k \<Longrightarrow> pendingOf (runDispatcher cfg evs) k = []"
    using wellFormed_runDispatcher by (rule wellFormed_idle)
  moreover have "\<exists>cfg' evs'. set (deliveredAll (runDispatcher cfg' evs')) = set (accepted cfg' Map.empty evs')
         \<and> deliveredAll (runDispatcher cfg' evs') \<noteq> accepted cfg' Map.empty evs'"
  proof (intro exI)
    let ?cfg = "\<lparr>dedupWindow = 10, retryBound = 3, callTimeout = 30, idleTTL = 100,
      fallbackText = ''try again later'', newSessionID = (\<lambda>k. snd k)\<rparr>"
    let ?a = "\<lparr>channel = Telegram, externalConversationID = ''c1'', externalSenderID = ''u'',
      msgText = ''a'', receivedAt = 1, idempotencyKey = ''1'', rawPayloadRef = []\<rparr>"
    let ?b = "\<lparr>channel = Telegram, externalConversationID = ''c1'', externalSenderID = ''u'',
      msgText = ''b'', receivedAt = 2, idempotencyKey = ''2'', rawPayloadRef = []\<rparr>"
    let ?c = "\<lparr>channel = Feishu, externalConversationID = ''c2'', externalSenderID = ''v'',
      msgText = ''c'', receivedAt = 3, idempotencyKey = ''3'', rawPayloadRef = []\<rparr>"
    let ?evs = "[Arrive 1 ?a, Arrive 2 ?b, Arrive 3 ?c, BackendOk 4 (Telegram, ''c1'') ''ra'']"
    have da: "deliveredAll (runDispatcher ?cfg ?evs) = [?a, ?c, ?b]"
      by code_simp
    have ac: "accepted ?cfg Map.empty ?evs = [?a, ?b, ?c]"
      by code_simp
    show "set (deliveredAll (runDispatcher ?cfg ?evs)) = set (accepted ?cfg Map.empty ?evs)
         \<and> deliveredAll (runDispatcher ?cfg ?evs) \<noteq> accepted ?cfg Map.empty ?evs"
      unfolding da ac by auto
  qed
  ultimately show ?thesis using fifo_runDispatcher[of k cfg evs] by auto
qed

theorem dispatcher_fifo_per_session_witness:
  "delivered (Telegram, ''c1'') (runDispatcher
       \<lparr>dedupWindow = 10, retryBound = 3, callTimeout = 30, idleTTL = 100,
        fallbackText = ''try again later'', newSessionID = (\<lambda>k. snd k)\<rparr>
       [Arrive 1 \<lparr>channel = Telegram, externalConversationID = ''c1'', externalSenderID = ''u'',
                  msgText = ''a'', receivedAt = 1, idempotencyKey = ''1'', rawPayloadRef = []\<rparr>,
        Arrive 2 \<lparr>channel = Telegram, externalConversationID = ''c1'', externalSenderID = ''u'',
                  msgText = ''b'', receivedAt = 2, idempotencyKey = ''2'', rawPayloadRef = []\<rparr>,
        Arrive 3 \<lparr>channel = Feishu, externalConversationID = ''c2'', externalSenderID = ''v'',
                  msgText = ''c'', receivedAt = 3, idempotencyKey = ''3'', rawPayloadRef = []\<rparr>,
        BackendOk 4 (Telegram, ''c1'') ''ra'',
        BackendOk 5 (Telegram, ''c1'') ''rb''])
   = [\<lparr>channel = Telegram, externalConversationID = ''c1'', externalSenderID = ''u'',
       msgText = ''a'', receivedAt = 1, idempotencyKey = ''1'', rawPayloadRef = []\<rparr>,
      \<lparr>channel = Telegram, externalConversationID = ''c1'', externalSenderID = ''u'',
       msgText = ''b'', receivedAt = 2, idempotencyKey = ''2'', rawPayloadRef = []\<rparr>]"
proof -
  let ?cfg = "\<lparr>dedupWindow = 10, retryBound = 3, callTimeout = 30, idleTTL = 100,
    fallbackText = ''try again later'', newSessionID = (\<lambda>k. snd k)\<rparr>"
  let ?a = "\<lparr>channel = Telegram, externalConversationID = ''c1'', externalSenderID = ''u'',
    msgText = ''a'', receivedAt = 1, idempotencyKey = ''1'', rawPayloadRef = []\<rparr>"
  let ?b = "\<lparr>channel = Telegram, externalConversationID = ''c1'', externalSenderID = ''u'',
    msgText = ''b'', receivedAt = 2, idempotencyKey = ''2'', rawPayloadRef = []\<rparr>"
  let ?c = "\<lparr>channel = Feishu, externalConversationID = ''c2'', externalSenderID = ''v'',
    msgText = ''c'', receivedAt = 3, idempotencyKey = ''3'', rawPayloadRef = []\<rparr>"
  let ?evs = "[Arrive 1 ?a, Arrive 2 ?b, Arrive 3 ?c, BackendOk 4 (Telegram, ''c1'') ''ra'',
    BackendOk 5 (Telegram, ''c1'') ''rb'']"
  have idle: "\<not> sessionInFlight (runDispatcher ?cfg ?evs) (Telegram, ''c1'')"
    by code_simp
  have arrived: "filter (\<lambda>m. sessionKeyOf m = (Telegram, ''c1'')) (accepted ?cfg Map.empty ?evs)
      = [?a, ?b]"
    by code_simp
  from dispatcher_fifo_per_session [of "(Telegram, ''c1'')" ?cfg ?evs] idle
  have "delivered (Telegram, ''c1'') (runDispatcher ?cfg ?evs)
      = filter (\<lambda>m. sessionKeyOf m = (Telegram, ''c1'')) (accepted ?cfg Map.empty ?evs)"
    by blast
  then show ?thesis unfolding arrived .
qed

subsection \<open>The Heartbeat Monitor escalates once per failure episode\<close>

lemma failureThreshold_heartbeatRun:
  "failureThreshold (fst (heartbeatRun esc hb r)) = failureThreshold hb"
  by (cases r) (simp add: heartbeatRun_def Let_def)

lemma heartbeatRuns_Cons:
  "snd (heartbeatRuns esc hb (r # runs))
     = snd (heartbeatRun esc hb r) @ snd (heartbeatRuns esc (fst (heartbeatRun esc hb r)) runs)"
  "fst (heartbeatRuns esc hb (r # runs)) = fst (heartbeatRuns esc (fst (heartbeatRun esc hb r)) runs)"
  by (simp_all add: Let_def case_prod_beta)

lemma heartbeat_count:
  assumes "0 < failureThreshold hb"
  shows "length (snd (heartbeatRuns esc hb runs))
           + (if failureThreshold hb \<le> consecutiveFailures hb then 1 else 0)
         = length (filter (\<lambda>n. failureThreshold hb \<le> n)
             (failureEpisodes (consecutiveFailures hb) (map snd runs)))"
  using assms
proof (induction runs arbitrary: hb)
  case Nil
  then show ?case by simp
next
  case (Cons r runs)
  obtain now ok where r: "r = (now, ok)" by (cases r)
  define hb1 where "hb1 = fst (heartbeatRun esc hb r)"
  have th: "failureThreshold hb1 = failureThreshold hb"
    by (simp add: hb1_def failureThreshold_heartbeatRun)
  have ih: "length (snd (heartbeatRuns esc hb1 runs))
           + (if failureThreshold hb \<le> consecutiveFailures hb1 then 1 else 0)
         = length (filter (\<lambda>n. failureThreshold hb \<le> n)
             (failureEpisodes (consecutiveFailures hb1) (map snd runs)))"
    using Cons.IH[of hb1] Cons.prems by (simp add: th)
  show ?case
  proof (cases ok)
    case True
    then have c1: "consecutiveFailures hb1 = 0" and o1: "snd (heartbeatRun esc hb r) = []"
      by (simp_all add: hb1_def r heartbeatRun_def)
    have "snd r = ok" by (simp add: r)
    then show ?thesis using ih[unfolded hb1_def] Cons.prems True c1[unfolded hb1_def] o1
      by (simp add: heartbeatRuns_Cons(1) del: heartbeatRuns.simps)
  next
    case False
    then have c1: "consecutiveFailures hb1 = Suc (consecutiveFailures hb)"
      and o1: "length (snd (heartbeatRun esc hb r))
                 = (if Suc (consecutiveFailures hb) = failureThreshold hb then 1 else 0)"
      by (simp_all add: hb1_def r heartbeatRun_def Let_def)
    have "snd r = ok" by (simp add: r)
    then show ?thesis using ih[unfolded hb1_def] Cons.prems False c1[unfolded hb1_def] o1
      by (auto simp add: heartbeatRuns_Cons(1) simp del: heartbeatRuns.simps split: if_splits)
  qed
qed


lemma failureEpisodes_failures:
  "failureEpisodes n (map snd (map (\<lambda>t. (t, False)) ts)) = (if n + length ts = 0 then [] else [n + length ts])"
  by (induction ts arbitrary: n) auto

text \<open>
  C4. Starting from a counter of zero and with a positive threshold, the heartbeat runs
  emit one escalation Message for every failure episode that reaches the threshold, and no
  other: as many Messages as there are maximal runs of consecutive failures at least as
  long as the threshold. A single run of failures emits one Message if it is as long as
  the threshold, however much longer it gets, and none if it is shorter; a success
  sets the counter back to zero.
\<close>

theorem heartbeat_escalates_once_per_episode:
  assumes "0 < failureThreshold hb" and "consecutiveFailures hb = 0"
  shows "length (snd (heartbeatRuns escalation hb runs))
           = length (filter (\<lambda>n. failureThreshold hb \<le> n) (failureEpisodes 0 (map snd runs)))
         \<and> length (snd (heartbeatRuns escalation hb (map (\<lambda>t. (t, False)) ts)))
           = (if failureThreshold hb \<le> length ts then 1 else 0)
         \<and> consecutiveFailures (fst (heartbeatRun escalation h (t, True))) = 0"
proof -
  have g: "length (snd (heartbeatRuns escalation hb rs))
           = length (filter (\<lambda>n. failureThreshold hb \<le> n) (failureEpisodes 0 (map snd rs)))" for rs
    using heartbeat_count[OF assms(1), of escalation rs] assms by simp
  have "length (snd (heartbeatRuns escalation hb (map (\<lambda>t. (t, False)) ts)))
           = (if failureThreshold hb \<le> length ts then 1 else 0)"
    using assms(1) by (simp add: g failureEpisodes_failures del: map_map)
  moreover have "consecutiveFailures (fst (heartbeatRun escalation h (t, True))) = 0"
    by (simp add: heartbeatRun_def)
  ultimately show ?thesis using g by blast
qed

theorem heartbeat_escalates_once_per_episode_witness:
  "length (snd (heartbeatRuns
       (\<lambda>t. \<lparr>channel = Telegram, externalConversationID = ''admin'',
              externalSenderID = ''heartbeat'', msgText = ''heartbeat failing'',
              receivedAt = t, idempotencyKey = ''heartbeat'', rawPayloadRef = []\<rparr>)
       \<lparr>lastSuccessAt = 0, consecutiveFailures = 0, interval = 60, failureThreshold = 5\<rparr>
       [(1, False), (2, False), (3, False), (4, False), (5, False), (6, False), (7, True),
        (8, False), (9, False), (10, False), (11, False), (12, False)])) = 2"
  using heartbeat_escalates_once_per_episode
    [of "\<lparr>lastSuccessAt = 0, consecutiveFailures = 0, interval = 60, failureThreshold = 5\<rparr>"
      "\<lambda>t. \<lparr>channel = Telegram, externalConversationID = ''admin'',
              externalSenderID = ''heartbeat'', msgText = ''heartbeat failing'',
              receivedAt = t, idempotencyKey = ''heartbeat'', rawPayloadRef = []\<rparr>"
      "[(1, False), (2, False), (3, False), (4, False), (5, False), (6, False), (7, True),
        (8, False), (9, False), (10, False), (11, False), (12, False)]"
      "[]" "\<lparr>lastSuccessAt = 0, consecutiveFailures = 0, interval = 60, failureThreshold = 5\<rparr>" 0]
  by simp

end
